theory Spec2Isabelle
  imports Complex_Main
begin

section \<open>The batching dispatcher: \<open>AnalyticsService\<close> of the annotator examples\<close>

text \<open>
  The class \<open>AnalyticsService\<close> queues events, sends them in batches with retries and
  exponential backoff, and keeps delivery metrics. The embedding below follows the
  class member by member.

  Conventions of the model.
  \<^item> \<open>batchSize\<close> and \<open>retryAttempts\<close> are a size and a count: integers. A
    configuration whose sizes are fractional, infinite or \<open>NaN\<close> is outside the model.
    The claims about sizes are read on batch sizes of at least one event; what the code
    does at \<open>batchSize \<le> 0\<close> is recorded in lemmas of its own.
  \<^item> The counters and the clock readings are integers, never rounded.
  \<^item> \<open>averageFlushTime\<close> is carried in exact arithmetic, where the program rounds in
    binary64. The model's value is therefore not the program's, and nothing is stated
    about how the average relates to the mean of the durations. (The concrete runs below
    meet only values on which the program does not round.)
  \<^item> The service object is the record \<open>AnalyticsService\<close>. Everything outside it (the
    network, the clock, timers, the listeners of the emitter) is the record \<open>world\<close>:
    two oracles give the outcome of the n-th \<open>fetch\<close> and the value of the n-th clock
    reading, and \<open>trace\<close> lists the effects in the order the code performs them.
  \<^item> An \<open>async\<close> method is the function from the state at its call to the state at its
    settlement, with no other method of the object running between; a rejected promise is
    \<open>Inl\<close> of the error, a fulfilled one \<open>Inr\<close> of the value. A call made while a
    flush is in flight is a call on a state whose \<open>isFlushInProgress\<close> is set: the
    properties of single calls are stated for every state.
  \<^item> Listeners registered on the emitter do not throw and do not touch the service.
\<close>

subsection \<open>Data\<close>

type_synonym properties = "(string \<times> string) list"

record AnalyticsConfig =
  apiEndpoint :: string
  batchSize :: int
  flushInterval :: int
  retryAttempts :: int

record EventData =
  eventType :: string
  userId :: string
  properties :: properties
  timestamp :: int

record Metrics =
  totalEvents :: int
  successfulFlushes :: int
  failedFlushes :: int
  averageFlushTime :: real

text \<open>
  The \<open>Error\<close> objects that \<open>sendEvents\<close> can hold in \<open>lastError\<close>: the one it builds
  from a response that is not ok (message \<open>HTTP <status>: <statusText>\<close>), an \<open>Error\<close>
  thrown by \<open>fetch\<close> itself, \<open>new Error('Unknown error')\<close>, and the fallback
  \<open>new Error('Failed to send events after all retry attempts')\<close>.
\<close>

datatype js_error =
    HttpError int string
  | FetchError string
  | UnknownError
  | AttemptsExhausted

text \<open>What one \<open>await fetch(...)\<close> gives: a response, or a thrown value, which is an
  \<open>Error\<close> object or something else.\<close>

datatype thrown = ErrorObject string | NonError

datatype fetch_outcome =
    Response (ok: bool) (status: int) (statusText: string)
  | Rejected thrown

datatype notification =
    EventTracked EventData
  | FlushCompleted int
  | FlushFailed js_error
  | ShutdownDone
  | ErrorEvent js_error

datatype effect =
    Fetch string "EventData list"
  | Delay int
  | Emit notification
  | SetInterval int
  | ClearInterval
  | ConsoleError js_error

datatype timeout = Timeout (interval: int) (active: bool)

record AnalyticsService =
  config :: AnalyticsConfig
  eventQueue :: "EventData list"
  isFlushInProgress :: bool
  flushTimer :: "timeout option"
  metrics :: Metrics

record world =
  fetchOracle :: "nat \<Rightarrow> fetch_outcome"
  clockOracle :: "nat \<Rightarrow> int"
  fetchCalls :: nat
  clockReads :: nat
  trace :: "effect list"

subsection \<open>The environment's operations\<close>

text \<open>\<open>Date.now()\<close> and \<open>new Date()\<close>: the next reading of the clock.\<close>

definition now :: "world \<Rightarrow> int \<times> world" where
  "now w = (clockOracle w (clockReads w), w\<lparr>clockReads := clockReads w + 1\<rparr>)"

text \<open>\<open>fetch(url, {method: 'POST', ..., body: JSON.stringify({events})})\<close>.\<close>

definition fetch :: "string \<Rightarrow> EventData list \<Rightarrow> world \<Rightarrow> fetch_outcome \<times> world" where
  "fetch url events w =
     (fetchOracle w (fetchCalls w),
      w\<lparr>fetchCalls := fetchCalls w + 1, trace := trace w @ [Fetch url events]\<rparr>)"

text \<open>\<open>delay(ms)\<close>: a promise that resolves after \<open>ms\<close> milliseconds.\<close>

definition delay :: "int \<Rightarrow> world \<Rightarrow> world" where
  "delay ms w = w\<lparr>trace := trace w @ [Delay ms]\<rparr>"

definition emit :: "notification \<Rightarrow> world \<Rightarrow> world" where
  "emit n w = w\<lparr>trace := trace w @ [Emit n]\<rparr>"

text \<open>\<open>Array.prototype.splice(0, deleteCount)\<close>: the number of elements removed is
  \<open>deleteCount\<close> clamped to \<open>0 .. length\<close>; the result is the removed prefix and what
  stays in the array.\<close>

definition splice0 :: "'a list \<Rightarrow> int \<Rightarrow> 'a list \<times> 'a list" where
  "splice0 xs deleteCount =
     (let actualDeleteCount = nat (min (max deleteCount 0) (int (length xs)))
      in (take actualDeleteCount xs, drop actualDeleteCount xs))"

subsection \<open>\<open>sendEvents\<close> and \<open>updateAverageFlushTime\<close>\<close>

text \<open>The body of the \<open>try\<close> in one attempt, after the \<open>await\<close>: \<open>None\<close> when it reaches
  \<open>return\<close>, otherwise the value the \<open>catch\<close> stores in \<open>lastError\<close>.\<close>

fun attemptError :: "fetch_outcome \<Rightarrow> js_error option" where
  "attemptError (Response isOk st txt) =
     (if \<not> isOk then Some (HttpError st txt) else None)"
| "attemptError (Rejected (ErrorObject msg)) = Some (FetchError msg)"
| "attemptError (Rejected NonError) = Some UnknownError"

text \<open>The \<open>for\<close> loop of \<open>sendEvents\<close>, from the value \<open>attempt\<close> of the loop variable and
  the current \<open>lastError\<close>, and the \<open>throw\<close> after it.\<close>

function sendEventsFrom ::
  "AnalyticsConfig \<Rightarrow> EventData list \<Rightarrow> int \<Rightarrow> js_error option \<Rightarrow> world
     \<Rightarrow> (js_error + unit) \<times> world" where
  "sendEventsFrom cfg events attempt lastError w =
     (if attempt \<le> retryAttempts cfg then
        (let (response, w1) = fetch (apiEndpoint cfg) events w in
         case attemptError response of
           None \<Rightarrow> (Inr (), w1)
         | Some error \<Rightarrow>
             (let w2 = (if attempt < retryAttempts cfg
                        then delay (2 ^ nat attempt * 1000) w1 else w1)
              in sendEventsFrom cfg events (attempt + 1) (Some error) w2))
      else
        (Inl (case lastError of Some e \<Rightarrow> e | None \<Rightarrow> AttemptsExhausted), w))"
  by pat_completeness auto
termination
  by (relation "measure (\<lambda>(cfg, events, attempt, lastError, w).
        nat (retryAttempts cfg + 1 - attempt))") auto

declare sendEventsFrom.simps [simp del]

definition sendEvents ::
  "AnalyticsConfig \<Rightarrow> EventData list \<Rightarrow> world \<Rightarrow> (js_error + unit) \<times> world" where
  "sendEvents cfg events w = sendEventsFrom cfg events 1 None w"

text \<open>The update of the running average. The program evaluates this expression in
  binary64, rounding after each operation; here it is evaluated exactly.\<close>

definition updateAverageFlushTime :: "real \<Rightarrow> Metrics \<Rightarrow> Metrics" where
  "updateAverageFlushTime newTime m =
     (let totalFlushes = successfulFlushes m
      in m\<lparr>averageFlushTime :=
             (averageFlushTime m * real_of_int (totalFlushes - 1) + newTime)
               / real_of_int totalFlushes\<rparr>)"

subsection \<open>\<open>flush\<close>, \<open>track\<close>, \<open>getMetrics\<close>\<close>

definition flush ::
  "AnalyticsService \<Rightarrow> world \<Rightarrow> (js_error + int) \<times> AnalyticsService \<times> world" where
  "flush s w =
     (if isFlushInProgress s \<or> length (eventQueue s) = 0 then (Inr 0, s, w)
      else
        (let s1 = s\<lparr>isFlushInProgress := True\<rparr>;
             (startTime, w1) = now w;
             (eventsToFlush, rest) = splice0 (eventQueue s1) (batchSize (config s1));
             s2 = s1\<lparr>eventQueue := rest\<rparr>;
             (sent, w2) = sendEvents (config s2) eventsToFlush w1
         in case sent of
              Inr _ \<Rightarrow>
                (let s3 = s2\<lparr>metrics := (metrics s2)
                            \<lparr>successfulFlushes := successfulFlushes (metrics s2) + 1\<rparr>\<rparr>;
                     (endTime, w3) = now w2;
                     s4 = s3\<lparr>metrics :=
                            updateAverageFlushTime (real_of_int (endTime - startTime))
                              (metrics s3)\<rparr>;
                     w4 = emit (FlushCompleted (int (length eventsToFlush))) w3
                 in (Inr (int (length eventsToFlush)),
                     s4\<lparr>isFlushInProgress := False\<rparr>, w4))
            | Inl error \<Rightarrow>
                (let s3 = s2\<lparr>metrics := (metrics s2)
                            \<lparr>failedFlushes := failedFlushes (metrics s2) + 1\<rparr>\<rparr>;
                     w3 = emit (FlushFailed error) w2
                 in (Inl error, s3\<lparr>isFlushInProgress := False\<rparr>, w3))))"

text \<open>The part of \<open>track\<close> before its \<open>if\<close>: build the event, push it, count it, notify.\<close>

definition trackEnqueue ::
  "string \<Rightarrow> string \<Rightarrow> properties \<Rightarrow> AnalyticsService \<Rightarrow> world
     \<Rightarrow> AnalyticsService \<times> world" where
  "trackEnqueue etype uid props s w =
     (let (date, w1) = now w;
          event = \<lparr>eventType = etype, userId = uid, properties = props, timestamp = date\<rparr>;
          s1 = s\<lparr>eventQueue := eventQueue s @ [event]\<rparr>;
          s2 = s1\<lparr>metrics := (metrics s1)\<lparr>totalEvents := totalEvents (metrics s1) + 1\<rparr>\<rparr>;
          w2 = emit (EventTracked event) w1
      in (s2, w2))"

definition track ::
  "string \<Rightarrow> string \<Rightarrow> properties \<Rightarrow> AnalyticsService \<Rightarrow> world
     \<Rightarrow> (js_error + unit) \<times> AnalyticsService \<times> world" where
  "track etype uid props s w =
     (let (s2, w2) = trackEnqueue etype uid props s w
      in if int (length (eventQueue s2)) \<ge> batchSize (config s2) then
           (case flush s2 w2 of
              (Inl error, s3, w3) \<Rightarrow> (Inl error, s3, w3)
            | (Inr _, s3, w3) \<Rightarrow> (Inr (), s3, w3))
         else (Inr (), s2, w2))"

definition getMetrics :: "AnalyticsService \<Rightarrow> Metrics" where
  "getMetrics s = metrics s"

subsection \<open>Construction, the periodic timer, \<open>shutdown\<close>\<close>

definition initializeService :: "AnalyticsService \<Rightarrow> world \<Rightarrow> AnalyticsService \<times> world" where
  "initializeService s w =
     (s\<lparr>flushTimer := Some (Timeout (flushInterval (config s)) True)\<rparr>,
      w\<lparr>trace := trace w @ [SetInterval (flushInterval (config s))]\<rparr>)"

definition newAnalyticsService :: "AnalyticsConfig \<Rightarrow> world \<Rightarrow> AnalyticsService \<times> world" where
  "newAnalyticsService cfg w =
     initializeService
       \<lparr>config = cfg, eventQueue = [], isFlushInProgress = False, flushTimer = None,
        metrics = \<lparr>totalEvents = 0, successfulFlushes = 0, failedFlushes = 0,
                   averageFlushTime = 0\<rparr>\<rparr> w"

text \<open>The callback given to \<open>setInterval\<close>, with the \<open>'error'\<close> listener that
  \<open>initializeService\<close> registers.\<close>

definition timerTick :: "AnalyticsService \<Rightarrow> world \<Rightarrow> AnalyticsService \<times> world" where
  "timerTick s w =
     (if length (eventQueue s) > 0 then
        (case flush s w of
           (Inl error, s1, w1) \<Rightarrow>
             (s1, (emit (ErrorEvent error) w1)
                    \<lparr>trace := trace (emit (ErrorEvent error) w1) @ [ConsoleError error]\<rparr>)
         | (Inr _, s1, w1) \<Rightarrow> (s1, w1))
      else (s, w))"

text \<open>The \<open>while\<close> loop of \<open>shutdown\<close>. It may run forever: \<open>None\<close> is "does not return".\<close>

partial_function (option) drain ::
  "AnalyticsService \<Rightarrow> world \<Rightarrow> ((js_error + unit) \<times> AnalyticsService \<times> world) option" where
  "drain s w =
     (if length (eventQueue s) > 0 then
        (case flush s w of
           (Inl error, s1, w1) \<Rightarrow> Some (Inl error, s1, w1)
         | (Inr _, s1, w1) \<Rightarrow> drain s1 w1)
      else Some (Inr (), s, w))"

definition clearTimer :: "AnalyticsService \<Rightarrow> world \<Rightarrow> AnalyticsService \<times> world" where
  "clearTimer s w =
     (case flushTimer s of
        Some t \<Rightarrow> (s\<lparr>flushTimer := Some (Timeout (interval t) False)\<rparr>,
                   w\<lparr>trace := trace w @ [ClearInterval]\<rparr>)
      | None \<Rightarrow> (s, w))"

definition shutdown ::
  "AnalyticsService \<Rightarrow> world \<Rightarrow> ((js_error + unit) \<times> AnalyticsService \<times> world) option" where
  "shutdown s w =
     (let (s1, w1) = clearTimer s w
      in case drain s1 w1 of
           None \<Rightarrow> None
         | Some (Inl error, s2, w2) \<Rightarrow> Some (Inl error, s2, w2)
         | Some (Inr _, s2, w2) \<Rightarrow> Some (Inr (), s2, emit ShutdownDone w2))"

subsection \<open>Sequences of calls\<close>

text \<open>A client of the service calls \<open>track\<close> and \<open>flush\<close>, and the timer fires, in any
  order; each call is settled before the next starts and the client catches what a call
  throws.\<close>

datatype call = Track string string properties | Flush | TimerTick

fun isTrack :: "call \<Rightarrow> bool" where
  "isTrack (Track etype uid props) = True"
| "isTrack Flush = False"
| "isTrack TimerTick = False"

fun perform :: "call \<Rightarrow> AnalyticsService \<times> world \<Rightarrow> AnalyticsService \<times> world" where
  "perform (Track etype uid props) (s, w) = snd (track etype uid props s w)"
| "perform Flush (s, w) = snd (flush s w)"
| "perform TimerTick (s, w) = timerTick s w"

fun run :: "call list \<Rightarrow> AnalyticsService \<times> world \<Rightarrow> AnalyticsService \<times> world" where
  "run [] sw = sw"
| "run (c # cs) sw = run cs (perform c sw)"

subsection \<open>Concrete configurations and environments\<close>

text \<open>\<open>defaultConfig\<close> of \<open>createAnalyticsService\<close>.\<close>

definition defaultConfig :: AnalyticsConfig where
  "defaultConfig =
     \<lparr>apiEndpoint = ''https://analytics.example.com/events'', batchSize = 10,
      flushInterval = 30000, retryAttempts = 3\<rparr>"

text \<open>Overrides of \<open>batchSize\<close> handed to \<open>createAnalyticsService\<close>.\<close>

definition configWithBatchSize :: "int \<Rightarrow> AnalyticsConfig" where
  "configWithBatchSize n = defaultConfig\<lparr>batchSize := n\<rparr>"

text \<open>The object literal that \<open>track\<close> builds, for short.\<close>

abbreviation eventAt :: "string \<Rightarrow> string \<Rightarrow> properties \<Rightarrow> int \<Rightarrow> EventData" where
  "eventAt etype uid props date \<equiv>
     \<lparr>eventType = etype, userId = uid, properties = props, timestamp = date\<rparr>"

definition serverUp :: "nat \<Rightarrow> fetch_outcome" where
  "serverUp n = Response True 200 ''OK''"

definition serverDown :: "nat \<Rightarrow> fetch_outcome" where
  "serverDown n = Response False 503 ''Service Unavailable''"

definition worldOf :: "(nat \<Rightarrow> fetch_outcome) \<Rightarrow> world" where
  "worldOf net =
     \<lparr>fetchOracle = net, clockOracle = (\<lambda>n. 1000 * int n), fetchCalls = 0,
      clockReads = 0, trace = []\<rparr>"

definition event :: "string \<Rightarrow> EventData" where
  "event name = \<lparr>eventType = name, userId = ''user123'', properties = [], timestamp = 0\<rparr>"

definition serviceOf :: "AnalyticsConfig \<Rightarrow> EventData list \<Rightarrow> bool \<Rightarrow> AnalyticsService" where
  "serviceOf cfg queue busy =
     \<lparr>config = cfg, eventQueue = queue, isFlushInProgress = busy,
      flushTimer = Some (Timeout (flushInterval cfg) True),
      metrics = \<lparr>totalEvents = int (length queue), successfulFlushes = 0,
                 failedFlushes = 0, averageFlushTime = 0\<rparr>\<rparr>"

definition fiveEvents :: "EventData list" where
  "fiveEvents = [event ''e1'', event ''e2'', event ''e3'', event ''e4'', event ''e5'']"

text \<open>The effects of a trace that come before the first occurrence of a given effect.\<close>

fun effectsBefore :: "effect \<Rightarrow> effect list \<Rightarrow> effect list" where
  "effectsBefore x [] = []"
| "effectsBefore x (e # es) = (if e = x then [] else e # effectsBefore x es)"

section \<open>Properties\<close>

subsection \<open>Auxiliary facts\<close>

lemma splice0_fst: "fst (splice0 xs n) = take (nat n) xs"
  by (auto simp add: splice0_def Let_def min_def max_def)

lemma splice0_snd: "snd (splice0 xs n) = drop (nat n) xs"
  by (auto simp add: splice0_def Let_def min_def max_def)

lemma splice0_eq: "splice0 xs n = (take (nat n) xs, drop (nat n) xs)"
  by (simp add: prod_eq_iff splice0_fst splice0_snd)

lemma flush_noop:
  "isFlushInProgress s \<or> eventQueue s = [] \<Longrightarrow> flush s w = (Inr 0, s, w)"
  by (auto simp add: flush_def)

lemma flush_failure:
  assumes "\<not> isFlushInProgress s" and "eventQueue s \<noteq> []"
    and "sendEvents (config s) (take (nat (batchSize (config s))) (eventQueue s))
           (snd (now w)) = (Inl e, w2)"
  shows "flush s w =
     (Inl e,
      s\<lparr>eventQueue := drop (nat (batchSize (config s))) (eventQueue s),
        metrics := (metrics s)\<lparr>failedFlushes := failedFlushes (metrics s) + 1\<rparr>\<rparr>,
      emit (FlushFailed e) w2)"
  using assms by (simp add: flush_def splice0_eq now_def Let_def)

lemma flush_success:
  assumes "\<not> isFlushInProgress s" and "eventQueue s \<noteq> []"
    and "sendEvents (config s) (take (nat (batchSize (config s))) (eventQueue s))
           (snd (now w)) = (Inr u, w2)"
  shows "flush s w =
     (Inr (int (length (take (nat (batchSize (config s))) (eventQueue s)))),
      s\<lparr>eventQueue := drop (nat (batchSize (config s))) (eventQueue s),
        metrics := updateAverageFlushTime
           (real_of_int (fst (now w2) - fst (now w)))
           ((metrics s)\<lparr>successfulFlushes := successfulFlushes (metrics s) + 1\<rparr>)\<rparr>,
      emit (FlushCompleted (int (length (take (nat (batchSize (config s))) (eventQueue s)))))
        (snd (now w2)))"
  using assms by (simp add: flush_def splice0_eq now_def Let_def)

lemma sendEventsFrom_frame:
  "fetchOracle (snd (sendEventsFrom cfg ev a le w)) = fetchOracle w \<and>
   clockOracle (snd (sendEventsFrom cfg ev a le w)) = clockOracle w \<and>
   clockReads (snd (sendEventsFrom cfg ev a le w)) = clockReads w"
proof (induction cfg ev a le w rule: sendEventsFrom.induct)
  case (1 cfg events attempt lastError w)
  show ?case
  proof (cases "attempt \<le> retryAttempts cfg")
    case False
    then show ?thesis
      by (simp add: sendEventsFrom.simps [of cfg events attempt lastError w])
  next
    case le: True
    obtain response w1 where f: "fetch (apiEndpoint cfg) events w = (response, w1)"
      by (cases "fetch (apiEndpoint cfg) events w")
    have w1: "fetchOracle w1 = fetchOracle w" "clockOracle w1 = clockOracle w"
      "clockReads w1 = clockReads w"
      using f by (auto simp add: fetch_def)
    show ?thesis
    proof (cases "attemptError response")
      case None
      then show ?thesis using le f w1
        by (simp add: sendEventsFrom.simps [of cfg events attempt lastError w])
    next
      case (Some error)
      define w2 where "w2 = (if attempt < retryAttempts cfg
                        then delay (2 ^ nat attempt * 1000) w1 else w1)"
      have w2: "fetchOracle w2 = fetchOracle w" "clockOracle w2 = clockOracle w"
        "clockReads w2 = clockReads w"
        using w1 by (auto simp add: w2_def delay_def)
      have step: "sendEventsFrom cfg events attempt lastError w =
                  sendEventsFrom cfg events (attempt + 1) (Some error) w2"
        using le f Some
        by (simp add: sendEventsFrom.simps [of cfg events attempt lastError w] w2_def)
      from "1.IH" [OF le refl f [symmetric] Some w2_def] w2 step
      show ?thesis by simp
    qed
  qed
qed

lemma sendEventsFrom_all_fail:
  assumes "\<forall>i<nat (retryAttempts cfg + 1 - a).
             attemptError (fetchOracle w (fetchCalls w + i)) \<noteq> None"
  shows "fst (sendEventsFrom cfg ev a le w) =
           Inl (if a \<le> retryAttempts cfg
                then the (attemptError
                       (fetchOracle w (fetchCalls w + nat (retryAttempts cfg - a))))
                else (case le of Some e \<Rightarrow> e | None \<Rightarrow> AttemptsExhausted)) \<and>
         fetchCalls (snd (sendEventsFrom cfg ev a le w)) =
           fetchCalls w + nat (retryAttempts cfg + 1 - a)"
  using assms
proof (induction cfg ev a le w rule: sendEventsFrom.induct)
  case (1 cfg events attempt lastError w)
  show ?case
  proof (cases "attempt \<le> retryAttempts cfg")
    case False
    then show ?thesis
      by (simp add: sendEventsFrom.simps [of cfg events attempt lastError w])
  next
    case le: True
    obtain response w1 where f: "fetch (apiEndpoint cfg) events w = (response, w1)"
      by (cases "fetch (apiEndpoint cfg) events w")
    have r: "response = fetchOracle w (fetchCalls w)"
      and w1: "fetchOracle w1 = fetchOracle w" "fetchCalls w1 = fetchCalls w + 1"
      using f by (auto simp add: fetch_def)
    have "0 < nat (retryAttempts cfg + 1 - attempt)" using le by simp
    with "1.prems" have "attemptError (fetchOracle w (fetchCalls w + 0)) \<noteq> None"
      by blast
    then obtain error where Some: "attemptError response = Some error"
      using r by auto
    define w2 where "w2 = (if attempt < retryAttempts cfg
                        then delay (2 ^ nat attempt * 1000) w1 else w1)"
    have w2: "fetchOracle w2 = fetchOracle w" "fetchCalls w2 = fetchCalls w + 1"
      using w1 by (auto simp add: w2_def delay_def)
    have step: "sendEventsFrom cfg events attempt lastError w =
                sendEventsFrom cfg events (attempt + 1) (Some error) w2"
      using le f Some
      by (simp add: sendEventsFrom.simps [of cfg events attempt lastError w] w2_def)
    have prem: "\<forall>i<nat (retryAttempts cfg + 1 - (attempt + 1)).
             attemptError (fetchOracle w2 (fetchCalls w2 + i)) \<noteq> None"
    proof (intro allI impI)
      fix i assume "i < nat (retryAttempts cfg + 1 - (attempt + 1))"
      then have "Suc i < nat (retryAttempts cfg + 1 - attempt)" by linarith
      with "1.prems" have "attemptError (fetchOracle w (fetchCalls w + Suc i)) \<noteq> None"
        by blast
      then show "attemptError (fetchOracle w2 (fetchCalls w2 + i)) \<noteq> None"
        by (simp add: w2)
    qed
    note IH = "1.IH" [OF le refl f [symmetric] Some w2_def prem]
    have calls: "fetchCalls (snd (sendEventsFrom cfg events attempt lastError w)) =
           fetchCalls w + nat (retryAttempts cfg + 1 - attempt)"
    proof -
      have "fetchCalls w2 + nat (retryAttempts cfg + 1 - (attempt + 1)) =
            fetchCalls w + nat (retryAttempts cfg + 1 - attempt)"
        using le w2 by linarith
      with IH show ?thesis unfolding step by simp
    qed
    have res: "fst (sendEventsFrom cfg events attempt lastError w) =
           Inl (the (attemptError
                       (fetchOracle w (fetchCalls w + nat (retryAttempts cfg - attempt)))))"
    proof (cases "attempt + 1 \<le> retryAttempts cfg")
      case True
      have idx: "fetchCalls w2 + nat (retryAttempts cfg - (attempt + 1)) =
                 fetchCalls w + nat (retryAttempts cfg - attempt)"
        using True w2 by linarith
      from IH True
      have "fst (sendEventsFrom cfg events (attempt + 1) (Some error) w2) =
              Inl (the (attemptError (fetchOracle w2
                (fetchCalls w2 + nat (retryAttempts cfg - (attempt + 1))))))"
        by simp
      then show ?thesis
        unfolding step idx w2(1) .
    next
      case False
      with le have eq: "retryAttempts cfg - attempt = 0" by simp
      from IH False have "fst (sendEventsFrom cfg events (attempt + 1) (Some error) w2) =
             Inl error" by simp
      with Some r show ?thesis
        unfolding step eq by simp
    qed
    from res calls le show ?thesis by simp
  qed
qed

lemma sendEvents_first_attempt_ok:
  assumes "1 \<le> retryAttempts cfg" and "attemptError (fetchOracle w (fetchCalls w)) = None"
  shows "sendEvents cfg evs w =
    (Inr (), w\<lparr>fetchCalls := fetchCalls w + 1,
               trace := trace w @ [Fetch (apiEndpoint cfg) evs]\<rparr>)"
  using assms
  by (simp add: sendEvents_def sendEventsFrom.simps [of cfg evs 1 None w] fetch_def)

lemma sendEventsFrom_success_trace:
  "fst (sendEventsFrom cfg evs a le w) = Inr u \<Longrightarrow>
   \<exists>pre. trace (snd (sendEventsFrom cfg evs a le w)) = pre @ [Fetch (apiEndpoint cfg) evs]"
proof (induction cfg evs a le w rule: sendEventsFrom.induct)
  case (1 cfg events attempt lastError w)
  show ?case
  proof (cases "attempt \<le> retryAttempts cfg")
    case False
    with "1.prems" show ?thesis
      by (simp add: sendEventsFrom.simps [of cfg events attempt lastError w])
  next
    case le: True
    obtain response w1 where f: "fetch (apiEndpoint cfg) events w = (response, w1)"
      by (cases "fetch (apiEndpoint cfg) events w")
    have w1: "trace w1 = trace w @ [Fetch (apiEndpoint cfg) events]"
      using f by (auto simp add: fetch_def)
    show ?thesis
    proof (cases "attemptError response")
      case None
      then show ?thesis using le f w1
        by (simp add: sendEventsFrom.simps [of cfg events attempt lastError w])
    next
      case (Some error)
      define w2 where "w2 = (if attempt < retryAttempts cfg
                        then delay (2 ^ nat attempt * 1000) w1 else w1)"
      have step: "sendEventsFrom cfg events attempt lastError w =
                  sendEventsFrom cfg events (attempt + 1) (Some error) w2"
        using le f Some
        by (simp add: sendEventsFrom.simps [of cfg events attempt lastError w] w2_def)
      from "1.IH" [OF le refl f [symmetric] Some w2_def] "1.prems"
      show ?thesis unfolding step by simp
    qed
  qed
qed

lemma flush_cases [case_names noop success failure]:
  obtains
    (noop) "isFlushInProgress s \<or> eventQueue s = []" and "flush s w = (Inr 0, s, w)"
  | (success) w2 where "\<not> isFlushInProgress s" and "eventQueue s \<noteq> []"
      and "sendEvents (config s) (take (nat (batchSize (config s))) (eventQueue s))
             (snd (now w)) = (Inr (), w2)"
  | (failure) e w2 where "\<not> isFlushInProgress s" and "eventQueue s \<noteq> []"
      and "sendEvents (config s) (take (nat (batchSize (config s))) (eventQueue s))
             (snd (now w)) = (Inl e, w2)"
proof (cases "isFlushInProgress s \<or> eventQueue s = []")
  case True
  then show ?thesis using noop flush_noop by blast
next
  case False
  obtain r w2 where send:
    "sendEvents (config s) (take (nat (batchSize (config s))) (eventQueue s))
             (snd (now w)) = (r, w2)"
    by (cases "sendEvents (config s) (take (nat (batchSize (config s))) (eventQueue s))
             (snd (now w))")
  show ?thesis
  proof (cases r)
    case (Inl e)
    with False send failure show ?thesis by blast
  next
    case (Inr u)
    with False send success show ?thesis by simp
  qed
qed

lemma flush_attempts_fail:
  assumes "eventQueue s \<noteq> []" and "\<not> isFlushInProgress s"
    and "\<forall>i<nat (retryAttempts (config s)).
           attemptError (fetchOracle w (fetchCalls w + i)) \<noteq> None"
  shows "\<exists>e w'.
      flush s w =
        (Inl e,
         s\<lparr>eventQueue := drop (nat (batchSize (config s))) (eventQueue s),
           metrics := (metrics s)\<lparr>failedFlushes := failedFlushes (metrics s) + 1\<rparr>\<rparr>,
         w') \<and>
      (if 1 \<le> retryAttempts (config s)
       then attemptError (fetchOracle w (fetchCalls w + nat (retryAttempts (config s) - 1)))
              = Some e
       else e = AttemptsExhausted) \<and>
      fetchCalls w' = fetchCalls w + nat (retryAttempts (config s)) \<and>
      last (trace w') = Emit (FlushFailed e)"
proof -
  let ?cfg = "config s"
  let ?batch = "take (nat (batchSize ?cfg)) (eventQueue s)"
  let ?w1 = "snd (now w)"
  have w1: "fetchOracle ?w1 = fetchOracle w" "fetchCalls ?w1 = fetchCalls w"
    by (simp_all add: now_def)
  have "\<forall>i<nat (retryAttempts ?cfg + 1 - 1).
          attemptError (fetchOracle ?w1 (fetchCalls ?w1 + i)) \<noteq> None"
    using assms(3) by (simp add: w1)
  note af = sendEventsFrom_all_fail [OF this, of ?batch None]
  obtain r w2 where send: "sendEvents ?cfg ?batch ?w1 = (r, w2)"
    by (cases "sendEvents ?cfg ?batch ?w1")
  define e where "e = (if 1 \<le> retryAttempts ?cfg
     then the (attemptError (fetchOracle w (fetchCalls w + nat (retryAttempts ?cfg - 1))))
     else AttemptsExhausted)"
  from af send have r: "r = Inl e" and calls: "fetchCalls w2 = fetchCalls w + nat (retryAttempts ?cfg)"
    by (simp_all add: sendEvents_def e_def w1)
  have e: "if 1 \<le> retryAttempts ?cfg
       then attemptError (fetchOracle w (fetchCalls w + nat (retryAttempts ?cfg - 1))) = Some e
       else e = AttemptsExhausted"
  proof (cases "1 \<le> retryAttempts ?cfg")
    case True
    then have "nat (retryAttempts ?cfg - 1) < nat (retryAttempts ?cfg)" by simp
    with assms(3) have "attemptError (fetchOracle w
        (fetchCalls w + nat (retryAttempts ?cfg - 1))) \<noteq> None"
      by blast
    with True show ?thesis by (auto simp add: e_def)
  next
    case False
    then show ?thesis by (simp add: e_def)
  qed
  from flush_failure [OF assms(2,1) send [unfolded r]]
  have "flush s w =
        (Inl e,
         s\<lparr>eventQueue := drop (nat (batchSize ?cfg)) (eventQueue s),
           metrics := (metrics s)\<lparr>failedFlushes := failedFlushes (metrics s) + 1\<rparr>\<rparr>,
         emit (FlushFailed e) w2)" .
  moreover have "fetchCalls (emit (FlushFailed e) w2) = fetchCalls w + nat (retryAttempts ?cfg)"
    using calls by (simp add: emit_def)
  moreover have "last (trace (emit (FlushFailed e) w2)) = Emit (FlushFailed e)"
    by (simp add: emit_def)
  ultimately show ?thesis using e by blast
qed

lemma sendEvents_three_failures:
  assumes "retryAttempts cfg = 3"
    and "attemptError (fetchOracle w (fetchCalls w)) = Some e1"
    and "attemptError (fetchOracle w (fetchCalls w + 1)) = Some e2"
    and "attemptError (fetchOracle w (fetchCalls w + 2)) = Some e3"
  shows "sendEvents cfg evs w =
    (Inl e3,
     w\<lparr>fetchCalls := fetchCalls w + 3,
       trace := trace w @
         [Fetch (apiEndpoint cfg) evs, Delay 2000,
          Fetch (apiEndpoint cfg) evs, Delay 4000,
          Fetch (apiEndpoint cfg) evs]\<rparr>)"
  using assms
  by (simp add: sendEvents_def sendEventsFrom.simps [of cfg evs 1]
      sendEventsFrom.simps [of cfg evs 2] sendEventsFrom.simps [of cfg evs 3]
      sendEventsFrom.simps [of cfg evs 4] fetch_def delay_def)

lemma flush_first_attempt_ok:
  assumes "\<not> isFlushInProgress s" and "eventQueue s \<noteq> []"
    and "1 \<le> retryAttempts (config s)"
    and "attemptError (fetchOracle w (fetchCalls w)) = None"
  shows "flush s w =
     (Inr (int (length (take (nat (batchSize (config s))) (eventQueue s)))),
      s\<lparr>eventQueue := drop (nat (batchSize (config s))) (eventQueue s),
        metrics := updateAverageFlushTime
           (real_of_int (clockOracle w (clockReads w + 1) - clockOracle w (clockReads w)))
           ((metrics s)\<lparr>successfulFlushes := successfulFlushes (metrics s) + 1\<rparr>)\<rparr>,
      w\<lparr>clockReads := clockReads w + 2, fetchCalls := fetchCalls w + 1,
        trace := trace w @
          [Fetch (apiEndpoint (config s)) (take (nat (batchSize (config s))) (eventQueue s)),
           Emit (FlushCompleted
             (int (length (take (nat (batchSize (config s))) (eventQueue s)))))]\<rparr>)"
proof -
  have "attemptError (fetchOracle (snd (now w)) (fetchCalls (snd (now w)))) = None"
    using assms(4) by (simp add: now_def)
  from flush_success [OF assms(1,2) sendEvents_first_attempt_ok [OF assms(3) this]]
  show ?thesis by (simp add: now_def emit_def)
qed

lemma trackEnqueue_eq:
  "trackEnqueue etype uid props s w =
     (s\<lparr>eventQueue := eventQueue s @
          [\<lparr>eventType = etype, userId = uid, properties = props,
            timestamp = clockOracle w (clockReads w)\<rparr>],
        metrics := (metrics s)\<lparr>totalEvents := totalEvents (metrics s) + 1\<rparr>\<rparr>,
      w\<lparr>clockReads := clockReads w + 1,
        trace := trace w @
          [Emit (EventTracked \<lparr>eventType = etype, userId = uid, properties = props,
                   timestamp = clockOracle w (clockReads w)\<rparr>)]\<rparr>)"
  by (simp add: trackEnqueue_def now_def emit_def Let_def)

lemma track_below_threshold:
  assumes "int (length (eventQueue s)) + 1 < batchSize (config s)"
  shows "track etype uid props s w =
     (Inr (),
      s\<lparr>eventQueue := eventQueue s @ [eventAt etype uid props (clockOracle w (clockReads w))],
        metrics := (metrics s)\<lparr>totalEvents := totalEvents (metrics s) + 1\<rparr>\<rparr>,
      w\<lparr>clockReads := clockReads w + 1,
        trace := trace w @
          [Emit (EventTracked (eventAt etype uid props (clockOracle w (clockReads w))))]\<rparr>)"
  using assms by (simp add: track_def trackEnqueue_eq)

lemma track_triggers_flush_ok:
  assumes "batchSize (config s) \<le> int (length (eventQueue s)) + 1"
    and "\<not> isFlushInProgress s" and "1 \<le> retryAttempts (config s)"
    and "attemptError (fetchOracle w (fetchCalls w)) = None"
  shows "track etype uid props s w =
     (Inr (),
      s\<lparr>eventQueue := drop (nat (batchSize (config s)))
           (eventQueue s @ [eventAt etype uid props (clockOracle w (clockReads w))]),
        metrics := updateAverageFlushTime
           (real_of_int (clockOracle w (clockReads w + 2) - clockOracle w (clockReads w + 1)))
           ((metrics s)\<lparr>totalEvents := totalEvents (metrics s) + 1,
                        successfulFlushes := successfulFlushes (metrics s) + 1\<rparr>)\<rparr>,
      w\<lparr>clockReads := clockReads w + 3, fetchCalls := fetchCalls w + 1,
        trace := trace w @
          [Emit (EventTracked (eventAt etype uid props (clockOracle w (clockReads w)))),
           Fetch (apiEndpoint (config s))
             (take (nat (batchSize (config s)))
                (eventQueue s @ [eventAt etype uid props (clockOracle w (clockReads w))])),
           Emit (FlushCompleted (int (length
             (take (nat (batchSize (config s)))
                (eventQueue s @
                   [eventAt etype uid props (clockOracle w (clockReads w))])))))]\<rparr>)"
proof -
  obtain s2 w2 where enq: "trackEnqueue etype uid props s w = (s2, w2)"
    by (cases "trackEnqueue etype uid props s w")
  note eq = enq [unfolded trackEnqueue_eq, simplified]
  from eq assms have pre: "\<not> isFlushInProgress s2" "eventQueue s2 \<noteq> []"
    "1 \<le> retryAttempts (config s2)" "attemptError (fetchOracle w2 (fetchCalls w2)) = None"
    and trig: "int (length (eventQueue s2)) \<ge> batchSize (config s2)"
    by auto
  have "track etype uid props s w =
      (case flush s2 w2 of
              (Inl error, s3, w3) \<Rightarrow> (Inl error, s3, w3)
            | (Inr _, s3, w3) \<Rightarrow> (Inr (), s3, w3))"
    using enq trig by (simp add: track_def)
  also note flush_first_attempt_ok [OF pre]
  finally show ?thesis using eq [THEN conjunct1, symmetric] eq [THEN conjunct2, symmetric]
    by (simp add: updateAverageFlushTime_def)
qed

lemma newAnalyticsService_eq:
  "newAnalyticsService cfg w =
     (\<lparr>config = cfg, eventQueue = [], isFlushInProgress = False,
       flushTimer = Some (Timeout (flushInterval cfg) True),
       metrics = \<lparr>totalEvents = 0, successfulFlushes = 0, failedFlushes = 0,
                  averageFlushTime = 0\<rparr>\<rparr>,
      w\<lparr>trace := trace w @ [SetInterval (flushInterval cfg)]\<rparr>)"
  by (simp add: newAnalyticsService_def initializeService_def)

subsection \<open>Auxiliary facts about the drain loop\<close>

lemma flush_frame:
  "config (fst (snd (flush s w))) = config s \<and>
   flushTimer (fst (snd (flush s w))) = flushTimer s \<and>
   totalEvents (metrics (fst (snd (flush s w)))) = totalEvents (metrics s) \<and>
   fetchOracle (snd (snd (flush s w))) = fetchOracle w \<and>
   clockOracle (snd (snd (flush s w))) = clockOracle w"
proof (cases s w rule: flush_cases)
  case noop
  then show ?thesis by simp
next
  case (success w2)
  from sendEventsFrom_frame [of "config s" "take (nat (batchSize (config s))) (eventQueue s)"
      1 None "snd (now w)"] success(3)
  have "fetchOracle w2 = fetchOracle w" "clockOracle w2 = clockOracle w"
    by (simp_all add: sendEvents_def now_def)
  then show ?thesis
    by (simp add: flush_success [OF success] updateAverageFlushTime_def emit_def now_def)
next
  case (failure e w2)
  from sendEventsFrom_frame [of "config s" "take (nat (batchSize (config s))) (eventQueue s)"
      1 None "snd (now w)"] failure(3)
  have "fetchOracle w2 = fetchOracle w" "clockOracle w2 = clockOracle w"
    by (simp_all add: sendEvents_def now_def)
  then show ?thesis
    by (simp add: flush_failure [OF failure] emit_def)
qed

text \<open>What a call of flush does to the failure counter, the flag and the trace.\<close>

lemma flush_outcome:
  assumes "flush s w = (r, s1, w1)"
  shows "case r of
           Inl e \<Rightarrow> failedFlushes (metrics s1) = failedFlushes (metrics s) + 1 \<and>
                    (\<exists>pre. trace w1 = pre @ [Emit (FlushFailed e)]) \<and>
                    \<not> isFlushInProgress s \<and> \<not> isFlushInProgress s1
         | Inr n \<Rightarrow> failedFlushes (metrics s1) = failedFlushes (metrics s) \<and>
                    isFlushInProgress s1 = isFlushInProgress s \<and>
                    eventQueue s1 = drop (nat n) (eventQueue s)"
proof (cases s w rule: flush_cases)
  case noop
  with assms show ?thesis by auto
next
  case (success w2)
  from flush_success [OF success] assms show ?thesis
    by (auto simp add: updateAverageFlushTime_def min_def)
next
  case (failure e w2)
  from flush_failure [OF failure] assms failure(1) show ?thesis
    by (auto simp add: emit_def)
qed


lemma drain_outcome:
  assumes "drain s w = Some y"
  shows "config (fst (snd y)) = config s \<and> flushTimer (fst (snd y)) = flushTimer s \<and>
         (case fst y of
            Inl e \<Rightarrow> failedFlushes (metrics (fst (snd y))) = failedFlushes (metrics s) + 1 \<and>
                     (\<exists>pre. trace (snd (snd y)) = pre @ [Emit (FlushFailed e)])
          | Inr u \<Rightarrow> failedFlushes (metrics (fst (snd y))) = failedFlushes (metrics s) \<and>
                     eventQueue (fst (snd y)) = [])"
  using assms
proof (rule drain.raw_induct [rotated])
  fix drain' s w y
  assume IH: "\<And>s w y. drain' s w = Some y \<Longrightarrow>
         config (fst (snd y)) = config s \<and> flushTimer (fst (snd y)) = flushTimer s \<and>
         (case fst y of
            Inl e \<Rightarrow> failedFlushes (metrics (fst (snd y))) = failedFlushes (metrics s) + 1 \<and>
                     (\<exists>pre. trace (snd (snd y)) = pre @ [Emit (FlushFailed e)])
          | Inr u \<Rightarrow> failedFlushes (metrics (fst (snd y))) = failedFlushes (metrics s) \<and>
                     eventQueue (fst (snd y)) = [])"
    and body: "(if 0 < length (eventQueue s)
        then case flush s w of
             (Inl error, s1, w1) \<Rightarrow> Some (Inl error, s1, w1)
             | (Inr x, s1, w1) \<Rightarrow> drain' s1 w1
        else Some (Inr (), s, w)) = Some y"
  show "config (fst (snd y)) = config s \<and> flushTimer (fst (snd y)) = flushTimer s \<and>
         (case fst y of
            Inl e \<Rightarrow> failedFlushes (metrics (fst (snd y))) = failedFlushes (metrics s) + 1 \<and>
                     (\<exists>pre. trace (snd (snd y)) = pre @ [Emit (FlushFailed e)])
          | Inr u \<Rightarrow> failedFlushes (metrics (fst (snd y))) = failedFlushes (metrics s) \<and>
                     eventQueue (fst (snd y)) = [])"
  proof (cases "0 < length (eventQueue s)")
    case False
    with body show ?thesis by auto
  next
    case True
    obtain r s1 w1 where fl: "flush s w = (r, s1, w1)"
      by (cases "flush s w")
    from flush_frame [of s w] fl
    have fr: "config s1 = config s" "flushTimer s1 = flushTimer s" by simp_all
    note out = flush_outcome [OF fl]
    show ?thesis
    proof (cases r)
      case (Inl e)
      with body True fl have "y = (Inl e, s1, w1)" by simp
      with out Inl fr show ?thesis by simp
    next
      case (Inr n)
      with body True fl have "drain' s1 w1 = Some y" by simp
      from IH [OF this] out Inr fr show ?thesis
        by (cases "fst y") simp_all
    qed
  qed
qed

lemma drain_terminates:
  assumes "\<not> isFlushInProgress s" and "1 \<le> batchSize (config s)"
  shows "\<exists>y. drain s w = Some y"
  using assms
proof (induction "length (eventQueue s)" arbitrary: s w rule: less_induct)
  case less
  show ?case
  proof (cases s w rule: flush_cases)
    case noop
    with less.prems have "eventQueue s = []" by simp
    then show ?thesis by (subst drain.simps) simp
  next
    case (failure e w2)
    from flush_failure [OF failure] failure(2) show ?thesis
      by (subst drain.simps) simp
  next
    case (success w2)
    note fl = flush_success [OF success]
    define s1 where "s1 = fst (snd (flush s w))"
    define w1 where "w1 = snd (snd (flush s w))"
    have s1: "eventQueue s1 = drop (nat (batchSize (config s))) (eventQueue s)"
      "\<not> isFlushInProgress s1" "config s1 = config s"
      using fl success(1) by (simp_all add: s1_def)
    have shorter: "length (eventQueue s1) < length (eventQueue s)"
      using s1(1) success(2) less.prems(2) by simp
    have "1 \<le> batchSize (config s1)"
      using less.prems(2) s1(3) by simp
    from less.hyps [OF shorter s1(2) this]
    obtain y where y: "drain s1 w1 = Some y" by blast
    have step: "drain s w = drain s1 w1"
      using fl success(2) by (subst drain.simps) (simp add: s1_def w1_def)
    show ?thesis unfolding step using y by (rule exI)
  qed
qed

lemma drain_spins_while_flush_in_progress:
  assumes "isFlushInProgress s" and "eventQueue s \<noteq> []"
  shows "drain s w = None"
proof -
  have "drain s w = Some y \<Longrightarrow> \<not> (isFlushInProgress s \<and> eventQueue s \<noteq> [])" for y
  proof (rule drain.raw_induct [rotated], assumption)
    fix drain' s w y
    assume IH: "\<And>s w y. drain' s w = Some y \<Longrightarrow>
          \<not> (isFlushInProgress s \<and> eventQueue s \<noteq> [])"
      and body: "(if 0 < length (eventQueue s)
        then case flush s w of
             (Inl error, s1, w1) \<Rightarrow> Some (Inl error, s1, w1)
             | (Inr x, s1, w1) \<Rightarrow> drain' s1 w1
        else Some (Inr (), s, w)) = Some y"
    show "\<not> (isFlushInProgress s \<and> eventQueue s \<noteq> [])"
    proof
      assume busy: "isFlushInProgress s \<and> eventQueue s \<noteq> []"
      then have "flush s w = (Inr 0, s, w)" by (simp add: flush_noop)
      with body busy have "drain' s w = Some y" by simp
      from IH [OF this] busy show False by simp
    qed
  qed
  with assms show ?thesis by (cases "drain s w") auto
qed

lemma drain_spins_without_progress:
  assumes "batchSize (config s) \<le> 0" and "eventQueue s \<noteq> []"
    and "\<not> isFlushInProgress s" and "1 \<le> retryAttempts (config s)"
    and "\<forall>n. attemptError (fetchOracle w n) = None"
  shows "drain s w = None"
proof -
  let ?I = "\<lambda>s w. batchSize (config s) \<le> 0 \<and> eventQueue s \<noteq> [] \<and>
    \<not> isFlushInProgress s \<and> 1 \<le> retryAttempts (config s) \<and>
    (\<forall>n. attemptError (fetchOracle w n) = None)"
  have "drain s w = Some y \<Longrightarrow> \<not> ?I s w" for y
  proof (rule drain.raw_induct [rotated], assumption)
    fix drain' s w y
    assume IH: "\<And>s w y. drain' s w = Some y \<Longrightarrow> \<not> ?I s w"
      and body: "(if 0 < length (eventQueue s)
        then case flush s w of
             (Inl error, s1, w1) \<Rightarrow> Some (Inl error, s1, w1)
             | (Inr x, s1, w1) \<Rightarrow> drain' s1 w1
        else Some (Inr (), s, w)) = Some y"
    show "\<not> ?I s w"
    proof
      assume I: "?I s w"
      then have ok: "\<not> isFlushInProgress s" "eventQueue s \<noteq> []"
        "1 \<le> retryAttempts (config s)" "attemptError (fetchOracle w (fetchCalls w)) = None"
        by simp_all
      define s1 where "s1 = fst (snd (flush s w))"
      define w1 where "w1 = snd (snd (flush s w))"
      note fl = flush_first_attempt_ok [OF ok]
      from fl I have "?I s1 w1" by (simp add: s1_def w1_def)
      moreover from fl body ok have "drain' s1 w1 = Some y"
        by (simp add: s1_def w1_def)
      ultimately show False using IH by blast
    qed
  qed
  with assms show ?thesis by (cases "drain s w") auto
qed

lemma drain_empty: "eventQueue s = [] \<Longrightarrow> drain s w = Some (Inr (), s, w)"
  by (subst drain.simps) simp

lemma drain_step_ok:
  assumes "\<not> isFlushInProgress s" and "eventQueue s \<noteq> []"
    and "1 \<le> retryAttempts (config s)"
    and "attemptError (fetchOracle w (fetchCalls w)) = None"
  shows "drain s w =
     drain
      (s\<lparr>eventQueue := drop (nat (batchSize (config s))) (eventQueue s),
        metrics := updateAverageFlushTime
           (real_of_int (clockOracle w (clockReads w + 1) - clockOracle w (clockReads w)))
           ((metrics s)\<lparr>successfulFlushes := successfulFlushes (metrics s) + 1\<rparr>)\<rparr>)
      (w\<lparr>clockReads := clockReads w + 2, fetchCalls := fetchCalls w + 1,
        trace := trace w @
          [Fetch (apiEndpoint (config s)) (take (nat (batchSize (config s))) (eventQueue s)),
           Emit (FlushCompleted
             (int (length (take (nat (batchSize (config s))) (eventQueue s)))))]\<rparr>)"
  using assms(2) by (subst drain.simps) (simp add: flush_first_attempt_ok [OF assms])

lemma drain_step_fail:
  assumes "\<not> isFlushInProgress s" and "eventQueue s \<noteq> []"
    and "flush s w = (Inl e, s1, w1)"
  shows "drain s w = Some (Inl e, s1, w1)"
  using assms by (subst drain.simps) simp

lemma flush_three_failures:
  assumes "retryAttempts (config s) = 3"
    and "eventQueue s \<noteq> []" and "\<not> isFlushInProgress s"
    and "attemptError (fetchOracle w (fetchCalls w)) = Some e1"
    and "attemptError (fetchOracle w (fetchCalls w + 1)) = Some e2"
    and "attemptError (fetchOracle w (fetchCalls w + 2)) = Some e3"
  shows "flush s w =
    (Inl e3,
     s\<lparr>eventQueue := drop (nat (batchSize (config s))) (eventQueue s),
       metrics := (metrics s)\<lparr>failedFlushes := failedFlushes (metrics s) + 1\<rparr>\<rparr>,
     w\<lparr>clockReads := clockReads w + 1,
       fetchCalls := fetchCalls w + 3,
       trace := trace w @
         [Fetch (apiEndpoint (config s)) (take (nat (batchSize (config s))) (eventQueue s)),
          Delay 2000,
          Fetch (apiEndpoint (config s)) (take (nat (batchSize (config s))) (eventQueue s)),
          Delay 4000,
          Fetch (apiEndpoint (config s)) (take (nat (batchSize (config s))) (eventQueue s)),
          Emit (FlushFailed e3)]\<rparr>)"
proof -
  let ?batch = "take (nat (batchSize (config s))) (eventQueue s)"
  have "sendEvents (config s) ?batch (snd (now w)) =
    (Inl e3,
     (snd (now w))\<lparr>fetchCalls := fetchCalls (snd (now w)) + 3,
       trace := trace (snd (now w)) @
         [Fetch (apiEndpoint (config s)) ?batch, Delay 2000,
          Fetch (apiEndpoint (config s)) ?batch, Delay 4000,
          Fetch (apiEndpoint (config s)) ?batch]\<rparr>)"
    using assms by (intro sendEvents_three_failures) (simp_all add: now_def)
  from flush_failure [OF assms(3,2) this] show ?thesis
    by (simp add: emit_def now_def)
qed

lemma shutdown_five_by_two:
  assumes "batchSize (config s) = 2" and "1 \<le> retryAttempts (config s)"
    and "eventQueue s = [e1, e2, e3, e4, e5]" and "\<not> isFlushInProgress s"
    and "flushTimer s = Some t" and "\<forall>n. attemptError (fetchOracle w n) = None"
  shows "\<exists>s' w'. shutdown s w = Some (Inr (), s', w') \<and>
      eventQueue s' = [] \<and>
      flushTimer s' = Some (Timeout (interval t) False) \<and>
      trace w' = trace w @
        [ClearInterval,
         Fetch (apiEndpoint (config s)) [e1, e2], Emit (FlushCompleted 2),
         Fetch (apiEndpoint (config s)) [e3, e4], Emit (FlushCompleted 2),
         Fetch (apiEndpoint (config s)) [e5], Emit (FlushCompleted 1),
         Emit ShutdownDone]"
  using assms
  by (simp add: shutdown_def clearTimer_def drain_step_ok drain_empty emit_def)

lemma clearTimer_frame:
  "config (fst (clearTimer s w)) = config s \<and>
   eventQueue (fst (clearTimer s w)) = eventQueue s \<and>
   isFlushInProgress (fst (clearTimer s w)) = isFlushInProgress s \<and>
   metrics (fst (clearTimer s w)) = metrics s \<and>
   flushTimer (fst (clearTimer s w)) = map_option (\<lambda>t. Timeout (interval t) False) (flushTimer s) \<and>
   fetchOracle (snd (clearTimer s w)) = fetchOracle w"
  by (simp add: clearTimer_def split: option.splits)

lemma shutdown_eq:
  "shutdown s w =
     (case drain (fst (clearTimer s w)) (snd (clearTimer s w)) of
        None \<Rightarrow> None
      | Some (Inl error, s2, w2) \<Rightarrow> Some (Inl error, s2, w2)
      | Some (Inr u, s2, w2) \<Rightarrow> Some (Inr (), s2, emit ShutdownDone w2))"
  by (simp add: shutdown_def split_beta)

lemma shutdown_five_by_two_up:
  "shutdown (serviceOf (configWithBatchSize 2) fiveEvents False) (worldOf serverUp) =
     Some (Inr (),
       (serviceOf (configWithBatchSize 2) [] False)
         \<lparr>flushTimer := Some (Timeout 30000 False),
          metrics := \<lparr>totalEvents = 5, successfulFlushes = 3, failedFlushes = 0,
                      averageFlushTime = 1000\<rparr>\<rparr>,
       (worldOf serverUp)
         \<lparr>clockReads := 6, fetchCalls := 3,
          trace :=
            [ClearInterval,
             Fetch ''https://analytics.example.com/events'' [event ''e1'', event ''e2''],
             Emit (FlushCompleted 2),
             Fetch ''https://analytics.example.com/events'' [event ''e3'', event ''e4''],
             Emit (FlushCompleted 2),
             Fetch ''https://analytics.example.com/events'' [event ''e5''],
             Emit (FlushCompleted 1),
             Emit ShutdownDone]\<rparr>)"
  by (simp add: shutdown_def clearTimer_def drain_step_ok drain_empty emit_def
      serviceOf_def configWithBatchSize_def defaultConfig_def fiveEvents_def worldOf_def
      serverUp_def updateAverageFlushTime_def)

lemma shutdown_spins_while_flush_in_progress:
  assumes "isFlushInProgress s" and "eventQueue s \<noteq> []"
  shows "shutdown s w = None"
proof -
  from clearTimer_frame [of s w] assms
  have "isFlushInProgress (fst (clearTimer s w))" "eventQueue (fst (clearTimer s w)) \<noteq> []"
    by simp_all
  from drain_spins_while_flush_in_progress [OF this] show ?thesis
    by (simp add: shutdown_eq)
qed

text \<open>Outside the sizes of the claims: a batch size of zero or less makes every
  successful \<open>flush\<close> of the drain loop remove nothing.\<close>

lemma shutdown_spins_without_progress:
  assumes "batchSize (config s) \<le> 0" and "eventQueue s \<noteq> []"
    and "\<not> isFlushInProgress s" and "1 \<le> retryAttempts (config s)"
    and "\<forall>n. attemptError (fetchOracle w n) = None"
  shows "shutdown s w = None"
proof -
  from clearTimer_frame [of s w] assms
  have "drain (fst (clearTimer s w)) (snd (clearTimer s w)) = None"
    by (intro drain_spins_without_progress) simp_all
  then show ?thesis by (simp add: shutdown_eq)
qed

lemma sendEventsFrom_trace_prefix:
  "\<exists>post. trace (snd (sendEventsFrom cfg evs a le w)) = trace w @ post"
proof (induction cfg evs a le w rule: sendEventsFrom.induct)
  case (1 cfg events attempt lastError w)
  show ?case
  proof (cases "attempt \<le> retryAttempts cfg")
    case False
    then show ?thesis
      by (simp add: sendEventsFrom.simps [of cfg events attempt lastError w])
  next
    case le: True
    obtain response w1 where f: "fetch (apiEndpoint cfg) events w = (response, w1)"
      by (cases "fetch (apiEndpoint cfg) events w")
    have w1: "trace w1 = trace w @ [Fetch (apiEndpoint cfg) events]"
      using f by (auto simp add: fetch_def)
    show ?thesis
    proof (cases "attemptError response")
      case None
      then show ?thesis using le f w1
        by (simp add: sendEventsFrom.simps [of cfg events attempt lastError w])
    next
      case (Some error)
      define w2 where "w2 = (if attempt < retryAttempts cfg
                        then delay (2 ^ nat attempt * 1000) w1 else w1)"
      have w2: "\<exists>post. trace w2 = trace w @ post"
        using w1 by (simp add: w2_def delay_def)
      have step: "sendEventsFrom cfg events attempt lastError w =
                  sendEventsFrom cfg events (attempt + 1) (Some error) w2"
        using le f Some
        by (simp add: sendEventsFrom.simps [of cfg events attempt lastError w] w2_def)
      from "1.IH" [OF le refl f [symmetric] Some w2_def] w2
      show ?thesis unfolding step by auto
    qed
  qed
qed

lemma flush_trace_prefix:
  "\<exists>post. trace (snd (snd (flush s w))) = trace w @ post"
proof (cases s w rule: flush_cases)
  case noop
  then show ?thesis by simp
next
  case (success w2)
  from sendEventsFrom_trace_prefix
    [of "config s" "take (nat (batchSize (config s))) (eventQueue s)" 1 None "snd (now w)"]
    success(3)
  obtain post where "trace w2 = trace w @ post"
    by (auto simp add: sendEvents_def now_def)
  then show ?thesis
    by (simp add: flush_success [OF success] emit_def now_def)
next
  case (failure e w2)
  from sendEventsFrom_trace_prefix
    [of "config s" "take (nat (batchSize (config s))) (eventQueue s)" 1 None "snd (now w)"]
    failure(3)
  obtain post where "trace w2 = trace w @ post"
    by (auto simp add: sendEvents_def now_def)
  then show ?thesis
    by (simp add: flush_failure [OF failure] emit_def)
qed

lemma drain_trace_prefix:
  assumes "drain s w = Some y"
  shows "\<exists>post. trace (snd (snd y)) = trace w @ post"
  using assms
proof (rule drain.raw_induct [rotated])
  fix drain' s w y
  assume IH: "\<And>s w y. drain' s w = Some y \<Longrightarrow>
         \<exists>post. trace (snd (snd y)) = trace w @ post"
    and body: "(if 0 < length (eventQueue s)
        then case flush s w of
             (Inl error, s1, w1) \<Rightarrow> Some (Inl error, s1, w1)
             | (Inr x, s1, w1) \<Rightarrow> drain' s1 w1
        else Some (Inr (), s, w)) = Some y"
  show "\<exists>post. trace (snd (snd y)) = trace w @ post"
  proof (cases "0 < length (eventQueue s)")
    case False
    with body show ?thesis by auto
  next
    case True
    obtain r s1 w1 where fl: "flush s w = (r, s1, w1)"
      by (cases "flush s w")
    from flush_trace_prefix [of s w] fl
    obtain post1 where p1: "trace w1 = trace w @ post1" by auto
    show ?thesis
    proof (cases r)
      case (Inl e)
      with body True fl have "y = (Inl e, s1, w1)" by simp
      with p1 show ?thesis by simp
    next
      case (Inr n)
      with body True fl have "drain' s1 w1 = Some y" by simp
      from IH [OF this] p1 show ?thesis by auto
    qed
  qed
qed

text \<open>\<open>shutdown\<close> settles from every idle state with a batch size of at least one, and
  what it leaves tells how it ended.\<close>

lemma shutdown_settles:
  assumes "\<not> isFlushInProgress s" and "1 \<le> batchSize (config s)"
  shows "\<exists>r s' w' rest.
      shutdown s w = Some (r, s', w') \<and>
      trace w' = trace w @ (case flushTimer s of Some t \<Rightarrow> [ClearInterval] | None \<Rightarrow> []) @ rest \<and>
      flushTimer s' = map_option (\<lambda>t. Timeout (interval t) False) (flushTimer s) \<and>
      (case r of
         Inl e \<Rightarrow> failedFlushes (metrics s') = failedFlushes (metrics s) + 1 \<and>
                  (\<exists>pre. trace w' = pre @ [Emit (FlushFailed e)])
       | Inr u \<Rightarrow> failedFlushes (metrics s') = failedFlushes (metrics s) \<and>
                  eventQueue s' = [] \<and>
                  (\<exists>pre. trace w' = pre @ [Emit ShutdownDone]))"
proof -
  let ?s1 = "fst (clearTimer s w)" and ?w1 = "snd (clearTimer s w)"
  note fr = clearTimer_frame [of s w]
  from fr assms have "\<not> isFlushInProgress ?s1" "1 \<le> batchSize (config ?s1)" by simp_all
  from drain_terminates [OF this] obtain y where d: "drain ?s1 ?w1 = Some y" by blast
  obtain r2 s2 w2 where y: "y = (r2, s2, w2)" by (cases y)
  note out = drain_outcome [OF d, unfolded y, simplified]
  from drain_trace_prefix [OF d] y obtain post where post: "trace w2 = trace ?w1 @ post"
    by auto
  have w1: "trace ?w1 = trace w @ (case flushTimer s of Some t \<Rightarrow> [ClearInterval] | None \<Rightarrow> [])"
    by (simp add: clearTimer_def split: option.splits)
  show ?thesis
  proof (cases r2)
    case (Inl e)
    with d y have "shutdown s w = Some (Inl e, s2, w2)" by (simp add: shutdown_eq)
    moreover from post w1 have "trace w2 =
        trace w @ (case flushTimer s of Some t \<Rightarrow> [ClearInterval] | None \<Rightarrow> []) @ post"
      by simp
    ultimately show ?thesis using out Inl fr by auto
  next
    case (Inr u)
    with d y have "shutdown s w = Some (Inr (), s2, emit ShutdownDone w2)"
      by (simp add: shutdown_eq)
    moreover from post w1 have "trace (emit ShutdownDone w2) =
        trace w @ (case flushTimer s of Some t \<Rightarrow> [ClearInterval] | None \<Rightarrow> [])
          @ (post @ [Emit ShutdownDone])"
      by (simp add: emit_def)
    moreover have "\<exists>pre. trace (emit ShutdownDone w2) = pre @ [Emit ShutdownDone]"
      by (simp add: emit_def)
    ultimately show ?thesis using out Inr fr by auto
  qed
qed

lemma shutdown_first_flush_fails:
  assumes "eventQueue s \<noteq> []"
    and "flush (fst (clearTimer s w)) (snd (clearTimer s w)) = (Inl e, s2, w2)"
  shows "shutdown s w = Some (Inl e, s2, w2)"
proof -
  from clearTimer_frame [of s w] assms(1)
  have "0 < length (eventQueue (fst (clearTimer s w)))" by simp
  then have "drain (fst (clearTimer s w)) (snd (clearTimer s w)) = Some (Inl e, s2, w2)"
    using assms(2) by (subst drain.simps) simp
  then show ?thesis by (simp add: shutdown_eq)
qed

subsection \<open>Auxiliary facts about the metrics\<close>

lemma perform_totalEvents:
  "totalEvents (metrics (fst (perform c sw))) =
     totalEvents (metrics (fst sw)) + (if isTrack c then 1 else 0)"
proof -
  obtain s w where sw: "sw = (s, w)" by (cases sw)
  note fr = flush_frame
  show ?thesis
  proof (cases c)
    case Flush
    with sw fr [of s w] show ?thesis by simp
  next
    case TimerTick
    show ?thesis
    proof (cases "0 < length (eventQueue s)")
      case True
      then have "fst (timerTick s w) = fst (snd (flush s w))"
        by (simp add: timerTick_def split: prod.splits sum.splits)
      with sw TimerTick fr [of s w] show ?thesis by simp
    next
      case False
      with sw TimerTick show ?thesis by (simp add: timerTick_def)
    qed
  next
    case (Track etype uid props)
    obtain s2 w2 where enq: "trackEnqueue etype uid props s w = (s2, w2)"
      by (cases "trackEnqueue etype uid props s w")
    from enq [unfolded trackEnqueue_eq]
    have t2: "totalEvents (metrics s2) = totalEvents (metrics s) + 1" by auto
    show ?thesis
    proof (cases "batchSize (config s2) \<le> int (length (eventQueue s2))")
      case True
      then have "fst (snd (track etype uid props s w)) = fst (snd (flush s2 w2))"
        using enq by (simp add: track_def split: prod.splits sum.splits)
      with sw Track fr [of s2 w2] t2 show ?thesis by simp
    next
      case False
      with sw Track enq t2 show ?thesis by (simp add: track_def)
    qed
  qed
qed

lemma run_totalEvents:
  "totalEvents (metrics (fst (run cs sw))) =
     totalEvents (metrics (fst sw)) + int (length (filter isTrack cs))"
  by (induction cs arbitrary: sw) (simp_all add: perform_totalEvents)

lemma flush_queue:
  "eventQueue (fst (snd (flush s w))) =
     (if isFlushInProgress s then eventQueue s
      else drop (nat (batchSize (config s))) (eventQueue s))"
proof (cases s w rule: flush_cases)
  case noop
  then show ?thesis by auto
next
  case (success w2)
  from flush_success [OF success] success(1) show ?thesis by simp
next
  case (failure e w2)
  from flush_failure [OF failure] failure(1) show ?thesis by simp
qed

lemma track_state:
  "fst (snd (track etype uid props s w)) =
     (if batchSize (config (fst (trackEnqueue etype uid props s w)))
           \<le> int (length (eventQueue (fst (trackEnqueue etype uid props s w))))
      then fst (snd (flush (fst (trackEnqueue etype uid props s w))
                       (snd (trackEnqueue etype uid props s w))))
      else fst (trackEnqueue etype uid props s w))"
  by (simp add: track_def split: prod.splits sum.splits)

subsection \<open>Claims about a single \<open>flush\<close>\<close>

text \<open>
  C3. When \<open>flush\<close> is called with an empty pending queue, or while a flush is in progress,
  it returns 0 without raising, and neither the service (its queue and its metrics among
  the rest) nor the world (no \<open>fetch\<close>, no clock reading, no notification) changes.
\<close>

theorem flush_noop_when_busy_or_empty:
  assumes "isFlushInProgress s \<or> eventQueue s = []"
  shows "flush s w = (Inr 0, s, w)"
  using assms by (rule flush_noop)

theorem flush_noop_when_busy_or_empty_witness:
  "(isFlushInProgress (serviceOf defaultConfig [event ''a''] True)
      \<or> eventQueue (serviceOf defaultConfig [event ''a''] True) = []) \<and>
   flush (serviceOf defaultConfig [event ''a''] True) (worldOf serverUp)
     = (Inr 0, serviceOf defaultConfig [event ''a''] True, worldOf serverUp) \<and>
   (isFlushInProgress (serviceOf defaultConfig [] False)
      \<or> eventQueue (serviceOf defaultConfig [] False) = []) \<and>
   flush (serviceOf defaultConfig [] False) (worldOf serverDown)
     = (Inr 0, serviceOf defaultConfig [] False, worldOf serverDown)"
  using
    flush_noop_when_busy_or_empty
      [of "serviceOf defaultConfig [event ''a''] True" "worldOf serverUp"]
    flush_noop_when_busy_or_empty
      [of "serviceOf defaultConfig [] False" "worldOf serverDown"]
  by (simp add: serviceOf_def)

text \<open>
  C1. When the queue is not empty, no flush is in progress and every delivery attempt of
  the batch fails, \<open>flush\<close> throws; the service it leaves differs from the one it found in
  two places only: the batch (the first \<open>batchSize\<close> events) is gone from the queue, and
  \<open>failedFlushes\<close> is one higher. So the in-progress flag is clear again and the batch is
  stored nowhere. The error thrown is the one of the last attempt (with no attempt
  configured, the fallback error), one \<open>fetch\<close> was made per configured attempt and the
  last effect is the \<open>flushFailed\<close> notification.
\<close>

theorem flush_failure_drops_batch:
  assumes "eventQueue s \<noteq> []" and "\<not> isFlushInProgress s"
    and "\<forall>i<nat (retryAttempts (config s)).
           attemptError (fetchOracle w (fetchCalls w + i)) \<noteq> None"
  shows "\<exists>e w'.
      flush s w =
        (Inl e,
         s\<lparr>eventQueue := drop (nat (batchSize (config s))) (eventQueue s),
           metrics := (metrics s)\<lparr>failedFlushes := failedFlushes (metrics s) + 1\<rparr>\<rparr>,
         w') \<and>
      (if 1 \<le> retryAttempts (config s)
       then attemptError (fetchOracle w (fetchCalls w + nat (retryAttempts (config s) - 1)))
              = Some e
       else e = AttemptsExhausted) \<and>
      fetchCalls w' = fetchCalls w + nat (retryAttempts (config s)) \<and>
      last (trace w') = Emit (FlushFailed e)"
  using assms by (rule flush_attempts_fail)

theorem flush_failure_drops_batch_witness:
  "eventQueue (serviceOf defaultConfig [event ''a'', event ''b''] False) \<noteq> [] \<and>
   \<not> isFlushInProgress (serviceOf defaultConfig [event ''a'', event ''b''] False) \<and>
   retryAttempts (config (serviceOf defaultConfig [event ''a'', event ''b''] False)) = 3 \<and>
   attemptError (fetchOracle (worldOf serverDown) (fetchCalls (worldOf serverDown) + 0))
     \<noteq> None \<and>
   attemptError (fetchOracle (worldOf serverDown) (fetchCalls (worldOf serverDown) + 1))
     \<noteq> None \<and>
   attemptError (fetchOracle (worldOf serverDown) (fetchCalls (worldOf serverDown) + 2))
     \<noteq> None \<and>
   fst (flush (serviceOf defaultConfig [event ''a'', event ''b''] False) (worldOf serverDown))
     = Inl (HttpError 503 ''Service Unavailable'') \<and>
   fst (snd (flush (serviceOf defaultConfig [event ''a'', event ''b''] False)
               (worldOf serverDown)))
     = (serviceOf defaultConfig [] False)
         \<lparr>metrics := \<lparr>totalEvents = 2, successfulFlushes = 0, failedFlushes = 1,
                      averageFlushTime = 0\<rparr>\<rparr>"
  using flush_failure_drops_batch
    [of "serviceOf defaultConfig [event ''a'', event ''b''] False" "worldOf serverDown"]
  by (auto simp add: serviceOf_def worldOf_def serverDown_def defaultConfig_def)

text \<open>
  What a successful \<open>flush\<close> returns and removes, for every integer \<open>batchSize\<close>:
  \<open>splice\<close> clamps its count to \<open>0 .. length\<close>.
\<close>

lemma flush_success_outcome:
  assumes "eventQueue s \<noteq> []" and "\<not> isFlushInProgress s"
    and "flush s w = (Inr n, s', w')"
  shows "n = min (max (batchSize (config s)) 0) (int (length (eventQueue s))) \<and>
         int (length (eventQueue s')) = int (length (eventQueue s)) - n \<and>
         eventQueue s' = drop (nat n) (eventQueue s) \<and>
         (\<exists>pre. trace w' =
            pre @ [Fetch (apiEndpoint (config s)) (take (nat n) (eventQueue s)),
                   Emit (FlushCompleted n)])"
proof (cases s w rule: flush_cases)
  case noop
  with assms show ?thesis by simp
next
  case (failure e w2)
  from flush_failure [OF failure] assms(3) show ?thesis by simp
next
  case (success w2)
  let ?b = "nat (batchSize (config s))"
  let ?batch = "take ?b (eventQueue s)"
  from flush_success [OF success] assms(3)
  have n: "n = int (length ?batch)"
    and q: "eventQueue s' = drop ?b (eventQueue s)"
    and w': "w' = emit (FlushCompleted (int (length ?batch))) (snd (now w2))"
    by simp_all
  have n_eq: "n = min (max (batchSize (config s)) 0) (int (length (eventQueue s)))"
    unfolding n by (auto simp add: min_def max_def)
  have take_eq: "take (nat n) (eventQueue s) = ?batch"
    unfolding n by (simp add: min_def)
  have drop_eq: "drop (nat n) (eventQueue s) = drop ?b (eventQueue s)"
    unfolding n by (simp add: min_def)
  from sendEventsFrom_success_trace [of "config s" ?batch 1 None "snd (now w)" "()"] success(3)
  obtain pre where pre: "trace w2 = pre @ [Fetch (apiEndpoint (config s)) ?batch]"
    by (auto simp add: sendEvents_def)
  have tr0: "trace w' = pre @ [Fetch (apiEndpoint (config s)) ?batch,
                   Emit (FlushCompleted (int (length ?batch)))]"
    unfolding w' using pre by (simp add: emit_def now_def)
  have "trace w' = pre @ [Fetch (apiEndpoint (config s)) (take (nat n) (eventQueue s)),
                   Emit (FlushCompleted n)]"
    unfolding take_eq using tr0 [folded n] .
  moreover have "int (length (eventQueue s')) = int (length (eventQueue s)) - n"
    unfolding q n by (simp add: min_def)
  ultimately show ?thesis using n_eq q drop_eq by auto
qed

text \<open>
  C2. When \<open>batchSize\<close> is at least 1, the queue is not empty, no flush is in progress and
  \<open>flush\<close> returns (its delivery succeeded), the number \<open>n\<close> it returns is
  \<open>min batchSize queueLength\<close>. The queue was its first \<open>n\<close> events followed by the
  queue that is left, so exactly the \<open>n\<close> oldest events are gone and the rest stays in
  order; the last request sent carries those \<open>n\<close> events in queue order.
\<close>

theorem flush_success_removes_oldest:
  assumes "1 \<le> batchSize (config s)"
    and "eventQueue s \<noteq> []" and "\<not> isFlushInProgress s"
    and "flush s w = (Inr n, s', w')"
  shows "n = min (batchSize (config s)) (int (length (eventQueue s))) \<and>
         int (length (eventQueue s')) = int (length (eventQueue s)) - n \<and>
         eventQueue s = take (nat n) (eventQueue s) @ eventQueue s' \<and>
         eventQueue s' = drop (nat n) (eventQueue s) \<and>
         (\<exists>pre. trace w' =
            pre @ [Fetch (apiEndpoint (config s)) (take (nat n) (eventQueue s)),
                   Emit (FlushCompleted n)])"
proof -
  note out = flush_success_outcome [OF assms(2-4)]
  from assms(1) have "max (batchSize (config s)) 0 = batchSize (config s)" by simp
  with out have n: "n = min (batchSize (config s)) (int (length (eventQueue s)))" by simp
  from out have len: "int (length (eventQueue s')) = int (length (eventQueue s)) - n"
    and q: "eventQueue s' = drop (nat n) (eventQueue s)"
    and tr: "\<exists>pre. trace w' =
            pre @ [Fetch (apiEndpoint (config s)) (take (nat n) (eventQueue s)),
                   Emit (FlushCompleted n)]"
    by blast+
  have "eventQueue s = take (nat n) (eventQueue s) @ eventQueue s'"
    unfolding q by simp
  with n len q tr show ?thesis by blast
qed

theorem flush_success_removes_oldest_witness:
  "1 \<le> batchSize (config (serviceOf defaultConfig [event ''a'', event ''b''] False)) \<and>
   eventQueue (serviceOf defaultConfig [event ''a'', event ''b''] False) \<noteq> [] \<and>
   \<not> isFlushInProgress (serviceOf defaultConfig [event ''a'', event ''b''] False) \<and>
   fst (flush (serviceOf defaultConfig [event ''a'', event ''b''] False) (worldOf serverUp))
     = Inr 2 \<and>
   eventQueue (fst (snd (flush (serviceOf defaultConfig [event ''a'', event ''b''] False)
                          (worldOf serverUp)))) = []"
proof -
  let ?s = "serviceOf defaultConfig [event ''a'', event ''b''] False"
  let ?w = "worldOf serverUp"
  obtain r s' w' where f: "flush ?s ?w = (r, s', w')"
    by (cases "flush ?s ?w")
  have ne: "eventQueue ?s \<noteq> []" and idle: "\<not> isFlushInProgress ?s"
    and size: "1 \<le> batchSize (config ?s)"
    by (simp_all add: serviceOf_def defaultConfig_def)
  have send: "sendEvents (config ?s) (take (nat (batchSize (config ?s))) (eventQueue ?s))
      (snd (now ?w)) = (Inr (), (snd (now ?w))\<lparr>fetchCalls := fetchCalls (snd (now ?w)) + 1,
         trace := trace (snd (now ?w)) @ [Fetch (apiEndpoint (config ?s))
            (take (nat (batchSize (config ?s))) (eventQueue ?s))]\<rparr>)"
    by (rule sendEvents_first_attempt_ok)
      (simp_all add: serviceOf_def defaultConfig_def worldOf_def serverUp_def now_def)
  from flush_success [OF idle ne send] f obtain n where r: "r = Inr n" by simp
  from flush_success_removes_oldest [OF size ne idle f [unfolded r]] f r ne idle size
  show ?thesis
    by (simp add: serviceOf_def defaultConfig_def)
qed

text \<open>
  Outside the sizes of C2: with \<open>batchSize = -1\<close> and one pending event a successful
  \<open>flush\<close> returns 0 and removes nothing.
\<close>

lemma flush_negative_batchSize:
  "eventQueue (serviceOf (configWithBatchSize (- 1)) [event ''a''] False) \<noteq> [] \<and>
   \<not> isFlushInProgress (serviceOf (configWithBatchSize (- 1)) [event ''a''] False) \<and>
   fst (flush (serviceOf (configWithBatchSize (- 1)) [event ''a''] False) (worldOf serverUp))
     = Inr 0 \<and>
   eventQueue (fst (snd (flush (serviceOf (configWithBatchSize (- 1)) [event ''a''] False)
                          (worldOf serverUp))))
     = [event ''a''] \<and>
   min (batchSize (config (serviceOf (configWithBatchSize (- 1)) [event ''a''] False)))
       (int (length (eventQueue (serviceOf (configWithBatchSize (- 1)) [event ''a''] False))))
     = - 1"
proof -
  let ?s = "serviceOf (configWithBatchSize (- 1)) [event ''a''] False"
  let ?w = "worldOf serverUp"
  let ?batch = "take (nat (batchSize (config ?s))) (eventQueue ?s)"
  have "flush ?s ?w =
     (Inr (int (length ?batch)),
      ?s\<lparr>eventQueue := drop (nat (batchSize (config ?s))) (eventQueue ?s),
        metrics := updateAverageFlushTime
           (real_of_int (clockOracle ?w (clockReads ?w + 1) - clockOracle ?w (clockReads ?w)))
           ((metrics ?s)\<lparr>successfulFlushes := successfulFlushes (metrics ?s) + 1\<rparr>)\<rparr>,
      ?w\<lparr>clockReads := clockReads ?w + 2, fetchCalls := fetchCalls ?w + 1,
        trace := trace ?w @
          [Fetch (apiEndpoint (config ?s)) ?batch,
           Emit (FlushCompleted (int (length ?batch)))]\<rparr>)"
    by (rule flush_first_attempt_ok)
      (simp_all add: serviceOf_def configWithBatchSize_def defaultConfig_def worldOf_def
        serverUp_def)
  then show ?thesis
    by (simp add: serviceOf_def configWithBatchSize_def defaultConfig_def)
qed

text \<open>
  C6. With \<open>retryAttempts = 3\<close>, a non-empty queue, no flush in progress and three failing
  attempts, \<open>flush\<close> makes exactly three requests, waits 2000 ms after the first failure
  and 4000 ms after the second, does not wait after the third, then notifies
  \<open>flushFailed\<close> and throws the error of the third attempt; \<open>failedFlushes\<close> goes up by one.
\<close>

theorem flush_three_attempts_backoff:
  assumes "retryAttempts (config s) = 3"
    and "eventQueue s \<noteq> []" and "\<not> isFlushInProgress s"
    and "attemptError (fetchOracle w (fetchCalls w)) = Some e1"
    and "attemptError (fetchOracle w (fetchCalls w + 1)) = Some e2"
    and "attemptError (fetchOracle w (fetchCalls w + 2)) = Some e3"
  shows "flush s w =
    (Inl e3,
     s\<lparr>eventQueue := drop (nat (batchSize (config s))) (eventQueue s),
       metrics := (metrics s)\<lparr>failedFlushes := failedFlushes (metrics s) + 1\<rparr>\<rparr>,
     w\<lparr>clockReads := clockReads w + 1,
       fetchCalls := fetchCalls w + 3,
       trace := trace w @
         [Fetch (apiEndpoint (config s)) (take (nat (batchSize (config s))) (eventQueue s)),
          Delay 2000,
          Fetch (apiEndpoint (config s)) (take (nat (batchSize (config s))) (eventQueue s)),
          Delay 4000,
          Fetch (apiEndpoint (config s)) (take (nat (batchSize (config s))) (eventQueue s)),
          Emit (FlushFailed e3)]\<rparr>)"
  using assms by (rule flush_three_failures)

theorem flush_three_attempts_backoff_witness:
  "retryAttempts (config (serviceOf defaultConfig [event ''a''] False)) = 3 \<and>
   flush (serviceOf defaultConfig [event ''a''] False) (worldOf serverDown) =
     (Inl (HttpError 503 ''Service Unavailable''),
      (serviceOf defaultConfig [] False)
         \<lparr>metrics := \<lparr>totalEvents = 1, successfulFlushes = 0, failedFlushes = 1,
                      averageFlushTime = 0\<rparr>\<rparr>,
      (worldOf serverDown)
        \<lparr>clockReads := 1, fetchCalls := 3,
         trace := [Fetch ''https://analytics.example.com/events'' [event ''a''], Delay 2000,
                   Fetch ''https://analytics.example.com/events'' [event ''a''], Delay 4000,
                   Fetch ''https://analytics.example.com/events'' [event ''a''],
                   Emit (FlushFailed (HttpError 503 ''Service Unavailable''))]\<rparr>)"
  using flush_three_attempts_backoff
    [of "serviceOf defaultConfig [event ''a''] False" "worldOf serverDown"
       "HttpError 503 ''Service Unavailable''" "HttpError 503 ''Service Unavailable''"
       "HttpError 503 ''Service Unavailable''"]
  by (simp add: serviceOf_def worldOf_def serverDown_def defaultConfig_def)

subsection \<open>Claims about \<open>track\<close>\<close>

text \<open>
  C10. When the event that \<open>track\<close> appends brings the queue length to \<open>batchSize\<close> or
  more, no flush is in progress and every delivery attempt fails, \<open>track\<close> throws the
  delivery error. The event was appended and counted before: \<open>totalEvents\<close> is one
  higher, and the queue is the old queue with the event at its end, less the dropped batch.
\<close>

theorem track_propagates_flush_failure:
  assumes "batchSize (config s) \<le> int (length (eventQueue s)) + 1"
    and "\<not> isFlushInProgress s"
    and "\<forall>i<nat (retryAttempts (config s)).
           attemptError (fetchOracle w (fetchCalls w + i)) \<noteq> None"
  shows "\<exists>e w'.
      track etype uid props s w =
        (Inl e,
         s\<lparr>eventQueue := drop (nat (batchSize (config s)))
              (eventQueue s @
                 [\<lparr>eventType = etype, userId = uid, properties = props,
                   timestamp = clockOracle w (clockReads w)\<rparr>]),
           metrics := (metrics s)
             \<lparr>totalEvents := totalEvents (metrics s) + 1,
              failedFlushes := failedFlushes (metrics s) + 1\<rparr>\<rparr>,
         w') \<and>
      (if 1 \<le> retryAttempts (config s)
       then attemptError (fetchOracle w (fetchCalls w + nat (retryAttempts (config s) - 1)))
              = Some e
       else e = AttemptsExhausted)"
proof -
  obtain s2 w2 where enq: "trackEnqueue etype uid props s w = (s2, w2)"
    by (cases "trackEnqueue etype uid props s w")
  note eq = enq [unfolded trackEnqueue_eq, simplified]
  from eq have s2: "config s2 = config s" "\<not> isFlushInProgress s2" "eventQueue s2 \<noteq> []"
    and w2: "fetchOracle w2 = fetchOracle w" "fetchCalls w2 = fetchCalls w"
    using assms(2) by auto
  have "\<forall>i<nat (retryAttempts (config s2)).
           attemptError (fetchOracle w2 (fetchCalls w2 + i)) \<noteq> None"
    using assms(3) by (simp add: s2 w2)
  from flush_attempts_fail [OF s2(3,2) this]
  obtain e w' where fl: "flush s2 w2 =
        (Inl e,
         s2\<lparr>eventQueue := drop (nat (batchSize (config s2))) (eventQueue s2),
           metrics := (metrics s2)\<lparr>failedFlushes := failedFlushes (metrics s2) + 1\<rparr>\<rparr>,
         w')"
    and e: "if 1 \<le> retryAttempts (config s2)
       then attemptError (fetchOracle w2 (fetchCalls w2 + nat (retryAttempts (config s2) - 1)))
              = Some e
       else e = AttemptsExhausted"
    by blast
  have trig: "int (length (eventQueue s2)) \<ge> batchSize (config s2)"
    using assms(1) eq by auto
  have "track etype uid props s w = (Inl e,
         s2\<lparr>eventQueue := drop (nat (batchSize (config s2))) (eventQueue s2),
           metrics := (metrics s2)\<lparr>failedFlushes := failedFlushes (metrics s2) + 1\<rparr>\<rparr>,
         w')"
    using enq trig fl by (simp add: track_def)
  with eq e show ?thesis by (auto simp add: w2 s2)
qed

theorem track_propagates_flush_failure_witness:
  "batchSize (config (serviceOf (configWithBatchSize 2) [event ''a''] False))
     \<le> int (length (eventQueue (serviceOf (configWithBatchSize 2) [event ''a''] False))) + 1 \<and>
   \<not> isFlushInProgress (serviceOf (configWithBatchSize 2) [event ''a''] False) \<and>
   fst (track ''click'' ''user123'' [] (serviceOf (configWithBatchSize 2) [event ''a''] False)
          (worldOf serverDown))
     = Inl (HttpError 503 ''Service Unavailable'') \<and>
   fst (snd (track ''click'' ''user123'' []
               (serviceOf (configWithBatchSize 2) [event ''a''] False) (worldOf serverDown)))
     = (serviceOf (configWithBatchSize 2) [] False)
         \<lparr>metrics := \<lparr>totalEvents = 2, successfulFlushes = 0, failedFlushes = 1,
                      averageFlushTime = 0\<rparr>\<rparr>"
  using track_propagates_flush_failure
    [of "serviceOf (configWithBatchSize 2) [event ''a''] False" "worldOf serverDown"
       "''click''" "''user123''" "[]"]
  by (auto simp add: serviceOf_def worldOf_def serverDown_def defaultConfig_def
      configWithBatchSize_def)

text \<open>
  C7. A service built with \<open>batchSize = 2\<close>, at least one attempt configured and a sink
  that accepts every request. Tracking \<open>A\<close> queues it and sends nothing. Tracking \<open>B\<close>
  brings the queue to length 2: one request carries \<open>[A, B]\<close>, the queue is empty.
  Tracking \<open>C\<close> queues it and sends nothing. Then \<open>flush\<close> sends \<open>[C]\<close> alone and
  returns 1. (The timestamps are the clock readings the calls make: the first, the second,
  and the fifth, the flush having read the clock twice.)
\<close>

theorem three_events_batch_of_two:
  assumes "batchSize cfg = 2" and "1 \<le> retryAttempts cfg"
    and "\<forall>n. attemptError (fetchOracle w n) = None"
    and "newAnalyticsService cfg w = (s0, w0)"
    and "A = eventAt tA uA pA (clockOracle w (clockReads w))"
    and "B = eventAt tB uB pB (clockOracle w (clockReads w + 1))"
    and "C = eventAt tC uC pC (clockOracle w (clockReads w + 4))"
  shows "\<exists>sA wA sB wB sC wC sF wF.
      track tA uA pA s0 w0 = (Inr (), sA, wA) \<and>
        eventQueue sA = [A] \<and> trace wA = trace w0 @ [Emit (EventTracked A)] \<and>
      track tB uB pB sA wA = (Inr (), sB, wB) \<and>
        eventQueue sB = [] \<and>
        trace wB = trace wA @
          [Emit (EventTracked B), Fetch (apiEndpoint cfg) [A, B], Emit (FlushCompleted 2)] \<and>
      track tC uC pC sB wB = (Inr (), sC, wC) \<and>
        eventQueue sC = [C] \<and> trace wC = trace wB @ [Emit (EventTracked C)] \<and>
      flush sC wC = (Inr 1, sF, wF) \<and>
        eventQueue sF = [] \<and>
        trace wF = trace wC @ [Fetch (apiEndpoint cfg) [C], Emit (FlushCompleted 1)]"
proof -
  from assms(4) have s0: "config s0 = cfg" "eventQueue s0 = []" "\<not> isFlushInProgress s0"
    and w0: "fetchOracle w0 = fetchOracle w" "clockOracle w0 = clockOracle w"
      "clockReads w0 = clockReads w"
    by (auto simp add: newAnalyticsService_eq)
  obtain rA sA wA where tA: "track tA uA pA s0 w0 = (rA, sA, wA)"
    by (cases "track tA uA pA s0 w0")
  have "int (length (eventQueue s0)) + 1 < batchSize (config s0)"
    using s0 assms(1) by simp
  note tA [unfolded track_below_threshold [OF this], simplified]
  then have rA: "rA = Inr ()" and sA: "config sA = cfg" "eventQueue sA = [A]"
      "\<not> isFlushInProgress sA"
    and wA: "fetchOracle wA = fetchOracle w" "clockOracle wA = clockOracle w"
      "clockReads wA = clockReads w + 1" "trace wA = trace w0 @ [Emit (EventTracked A)]"
    using s0 w0 assms(5) by auto
  obtain rB sB wB where tB: "track tB uB pB sA wA = (rB, sB, wB)"
    by (cases "track tB uB pB sA wA")
  have "batchSize (config sA) \<le> int (length (eventQueue sA)) + 1"
    "\<not> isFlushInProgress sA" "1 \<le> retryAttempts (config sA)"
    "attemptError (fetchOracle wA (fetchCalls wA)) = None"
    using sA wA assms(1-3) by simp_all
  note tB [unfolded track_triggers_flush_ok [OF this], simplified]
  then have rB: "rB = Inr ()" and sB: "config sB = cfg" "eventQueue sB = []"
      "\<not> isFlushInProgress sB"
    and wB: "fetchOracle wB = fetchOracle w" "clockOracle wB = clockOracle w"
      "clockReads wB = clockReads w + 4"
      "trace wB = trace wA @
          [Emit (EventTracked B), Fetch (apiEndpoint cfg) [A, B], Emit (FlushCompleted 2)]"
    using sA wA assms(1,6) by auto
  obtain rC sC wC where tC: "track tC uC pC sB wB = (rC, sC, wC)"
    by (cases "track tC uC pC sB wB")
  have "int (length (eventQueue sB)) + 1 < batchSize (config sB)"
    using sB assms(1) by simp
  note tC [unfolded track_below_threshold [OF this], simplified]
  then have rC: "rC = Inr ()" and sC: "config sC = cfg" "eventQueue sC = [C]"
      "\<not> isFlushInProgress sC"
    and wC: "fetchOracle wC = fetchOracle w" "trace wC = trace wB @ [Emit (EventTracked C)]"
    using sB wB assms(7) by auto
  obtain rF sF wF where fl: "flush sC wC = (rF, sF, wF)"
    by (cases "flush sC wC")
  have "\<not> isFlushInProgress sC" "eventQueue sC \<noteq> []" "1 \<le> retryAttempts (config sC)"
    "attemptError (fetchOracle wC (fetchCalls wC)) = None"
    using sC wC assms(2,3) by simp_all
  note fl [unfolded flush_first_attempt_ok [OF this], simplified]
  then have rF: "rF = Inr 1" and sF: "eventQueue sF = []"
    and wF: "trace wF = trace wC @ [Fetch (apiEndpoint cfg) [C], Emit (FlushCompleted 1)]"
    using sC assms(1) by auto
  from tA tB tC fl rA rB rC rF sA(2) sB(2) sC(2) sF wA(4) wB(4) wC(2) wF
  show ?thesis by blast
qed

theorem three_events_batch_of_two_witness:
  "batchSize (configWithBatchSize 2) = 2 \<and> 1 \<le> retryAttempts (configWithBatchSize 2) \<and>
   attemptError (fetchOracle (worldOf serverUp) 0) = None \<and>
   (\<exists>sA wA sB wB sC wC sF wF.
      track ''A'' ''u'' [] (fst (newAnalyticsService (configWithBatchSize 2) (worldOf serverUp)))
          (snd (newAnalyticsService (configWithBatchSize 2) (worldOf serverUp)))
        = (Inr (), sA, wA) \<and>
      eventQueue sA = [eventAt ''A'' ''u'' [] 0] \<and>
      track ''B'' ''u'' [] sA wA = (Inr (), sB, wB) \<and>
      eventQueue sB = [] \<and>
      trace wB = trace wA @
          [Emit (EventTracked (eventAt ''B'' ''u'' [] 1000)),
           Fetch ''https://analytics.example.com/events''
             [eventAt ''A'' ''u'' [] 0, eventAt ''B'' ''u'' [] 1000],
           Emit (FlushCompleted 2)] \<and>
      track ''C'' ''u'' [] sB wB = (Inr (), sC, wC) \<and>
      eventQueue sC = [eventAt ''C'' ''u'' [] 4000] \<and>
      flush sC wC = (Inr 1, sF, wF) \<and>
      eventQueue sF = [] \<and>
      trace wF = trace wC @
          [Fetch ''https://analytics.example.com/events'' [eventAt ''C'' ''u'' [] 4000],
           Emit (FlushCompleted 1)])"
proof -
  have h1: "batchSize (configWithBatchSize 2) = 2"
    and h2: "1 \<le> retryAttempts (configWithBatchSize 2)"
    and h3: "\<forall>n. attemptError (fetchOracle (worldOf serverUp) n) = None"
    and h4: "apiEndpoint (configWithBatchSize 2) = ''https://analytics.example.com/events''"
    by (simp_all add: configWithBatchSize_def defaultConfig_def worldOf_def serverUp_def)
  have c: "clockOracle (worldOf serverUp) (clockReads (worldOf serverUp)) = 0"
    "clockOracle (worldOf serverUp) (clockReads (worldOf serverUp) + 1) = 1000"
    "clockOracle (worldOf serverUp) (clockReads (worldOf serverUp) + 4) = 4000"
    by (simp_all add: worldOf_def)
  from three_events_batch_of_two
    [OF h1 h2 h3 surjective_pairing refl refl refl, unfolded c h4,
     of "''A''" "''u''" "[]" "''B''" "''u''" "[]" "''C''" "''u''" "[]"]
  obtain sA wA sB wB sC wC sF wF where
      "track ''A'' ''u'' [] (fst (newAnalyticsService (configWithBatchSize 2) (worldOf serverUp)))
          (snd (newAnalyticsService (configWithBatchSize 2) (worldOf serverUp)))
        = (Inr (), sA, wA)"
      "eventQueue sA = [eventAt ''A'' ''u'' [] 0]"
      "track ''B'' ''u'' [] sA wA = (Inr (), sB, wB)"
      "eventQueue sB = []"
      "trace wB = trace wA @
          [Emit (EventTracked (eventAt ''B'' ''u'' [] 1000)),
           Fetch ''https://analytics.example.com/events''
             [eventAt ''A'' ''u'' [] 0, eventAt ''B'' ''u'' [] 1000],
           Emit (FlushCompleted 2)]"
      "track ''C'' ''u'' [] sB wB = (Inr (), sC, wC)"
      "eventQueue sC = [eventAt ''C'' ''u'' [] 4000]"
      "flush sC wC = (Inr 1, sF, wF)"
      "eventQueue sF = []"
      "trace wF = trace wC @
          [Fetch ''https://analytics.example.com/events'' [eventAt ''C'' ''u'' [] 4000],
           Emit (FlushCompleted 1)]"
    by blast
  with h1 h2 h3 show ?thesis by blast
qed

subsection \<open>Claims about \<open>shutdown\<close>\<close>

text \<open>
  C8, as the code has it. \<open>shutdown\<close> stops the periodic timer first and drains after.
  From every state with no flush in progress and a batch size of at least 1, whatever the
  network does, \<open>shutdown\<close> settles; the stop of the timer is its first effect and the
  timer is stopped at the end. If it throws \<open>e\<close>, exactly one flush of the drain has
  failed and nothing was done after its \<open>flushFailed e\<close> notification; if it returns, no
  flush has failed, the queue is empty and \<open>shutdown\<close> was notified last. When the first
  flush of the drain throws, \<open>shutdown\<close> throws the same error from the state that flush
  left. In the scenario (five pending events, \<open>batchSize = 2\<close>, at least one attempt
  configured, a sink that accepts every request) the effects are, in this order: the timer
  is cleared, \<open>[e1, e2]\<close> is sent, \<open>[e3, e4]\<close> is sent, \<open>[e5]\<close> is sent, \<open>shutdown\<close>
  is notified.
\<close>

theorem shutdown_stops_timer_then_drains:
  assumes "\<not> isFlushInProgress s" and "1 \<le> batchSize (config s)"
  shows
   "(\<exists>r s' w' rest.
      shutdown s w = Some (r, s', w') \<and>
      trace w' =
        trace w @ (case flushTimer s of Some t \<Rightarrow> [ClearInterval] | None \<Rightarrow> []) @ rest \<and>
      flushTimer s' = map_option (\<lambda>t. Timeout (interval t) False) (flushTimer s) \<and>
      (case r of
         Inl e \<Rightarrow> failedFlushes (metrics s') = failedFlushes (metrics s) + 1 \<and>
                  (\<exists>pre. trace w' = pre @ [Emit (FlushFailed e)])
       | Inr u \<Rightarrow> failedFlushes (metrics s') = failedFlushes (metrics s) \<and>
                  eventQueue s' = [] \<and>
                  (\<exists>pre. trace w' = pre @ [Emit ShutdownDone]))) \<and>
    (\<forall>e s2 w2.
      eventQueue s \<noteq> [] \<and>
      flush (fst (clearTimer s w)) (snd (clearTimer s w)) = (Inl e, s2, w2) \<longrightarrow>
      shutdown s w = Some (Inl e, s2, w2)) \<and>
    (batchSize (config s) = 2 \<and> 1 \<le> retryAttempts (config s) \<and>
     eventQueue s = [e1, e2, e3, e4, e5] \<and> flushTimer s = Some t \<and>
     (\<forall>n. attemptError (fetchOracle w n) = None) \<longrightarrow>
     (\<exists>s' w'. shutdown s w = Some (Inr (), s', w') \<and>
        eventQueue s' = [] \<and>
        flushTimer s' = Some (Timeout (interval t) False) \<and>
        trace w' = trace w @
          [ClearInterval,
           Fetch (apiEndpoint (config s)) [e1, e2], Emit (FlushCompleted 2),
           Fetch (apiEndpoint (config s)) [e3, e4], Emit (FlushCompleted 2),
           Fetch (apiEndpoint (config s)) [e5], Emit (FlushCompleted 1),
           Emit ShutdownDone]))"
proof (intro conjI allI impI)
  show "\<exists>r s' w' rest.
      shutdown s w = Some (r, s', w') \<and>
      trace w' =
        trace w @ (case flushTimer s of Some t \<Rightarrow> [ClearInterval] | None \<Rightarrow> []) @ rest \<and>
      flushTimer s' = map_option (\<lambda>t. Timeout (interval t) False) (flushTimer s) \<and>
      (case r of
         Inl e \<Rightarrow> failedFlushes (metrics s') = failedFlushes (metrics s) + 1 \<and>
                  (\<exists>pre. trace w' = pre @ [Emit (FlushFailed e)])
       | Inr u \<Rightarrow> failedFlushes (metrics s') = failedFlushes (metrics s) \<and>
                  eventQueue s' = [] \<and>
                  (\<exists>pre. trace w' = pre @ [Emit ShutdownDone]))"
    using assms by (rule shutdown_settles)
next
  fix e s2 w2
  assume "eventQueue s \<noteq> [] \<and>
      flush (fst (clearTimer s w)) (snd (clearTimer s w)) = (Inl e, s2, w2)"
  then show "shutdown s w = Some (Inl e, s2, w2)"
    by (intro shutdown_first_flush_fails) simp_all
next
  assume "batchSize (config s) = 2 \<and> 1 \<le> retryAttempts (config s) \<and>
     eventQueue s = [e1, e2, e3, e4, e5] \<and> flushTimer s = Some t \<and>
     (\<forall>n. attemptError (fetchOracle w n) = None)"
  with assms(1)
  show "\<exists>s' w'. shutdown s w = Some (Inr (), s', w') \<and>
        eventQueue s' = [] \<and>
        flushTimer s' = Some (Timeout (interval t) False) \<and>
        trace w' = trace w @
          [ClearInterval,
           Fetch (apiEndpoint (config s)) [e1, e2], Emit (FlushCompleted 2),
           Fetch (apiEndpoint (config s)) [e3, e4], Emit (FlushCompleted 2),
           Fetch (apiEndpoint (config s)) [e5], Emit (FlushCompleted 1),
           Emit ShutdownDone]"
    by (intro shutdown_five_by_two) simp_all
qed

theorem shutdown_stops_timer_then_drains_witness:
  "\<not> isFlushInProgress (serviceOf (configWithBatchSize 2) fiveEvents False) \<and>
   1 \<le> batchSize (config (serviceOf (configWithBatchSize 2) fiveEvents False)) \<and>
   (\<exists>s' w'. shutdown (serviceOf (configWithBatchSize 2) fiveEvents False) (worldOf serverUp)
        = Some (Inr (), s', w') \<and>
      eventQueue s' = [] \<and>
      flushTimer s' = Some (Timeout 30000 False) \<and>
      trace w' =
        [ClearInterval,
         Fetch ''https://analytics.example.com/events'' [event ''e1'', event ''e2''],
         Emit (FlushCompleted 2),
         Fetch ''https://analytics.example.com/events'' [event ''e3'', event ''e4''],
         Emit (FlushCompleted 2),
         Fetch ''https://analytics.example.com/events'' [event ''e5''],
         Emit (FlushCompleted 1),
         Emit ShutdownDone]) \<and>
   shutdown (serviceOf (configWithBatchSize 2) fiveEvents False) (worldOf serverDown) =
     Some (Inl (HttpError 503 ''Service Unavailable''),
       (serviceOf (configWithBatchSize 2) [event ''e3'', event ''e4'', event ''e5''] False)
         \<lparr>flushTimer := Some (Timeout 30000 False),
          metrics := \<lparr>totalEvents = 5, successfulFlushes = 0, failedFlushes = 1,
                      averageFlushTime = 0\<rparr>\<rparr>,
       (worldOf serverDown)
         \<lparr>clockReads := 1, fetchCalls := 3,
          trace :=
            [ClearInterval,
             Fetch ''https://analytics.example.com/events'' [event ''e1'', event ''e2''],
             Delay 2000,
             Fetch ''https://analytics.example.com/events'' [event ''e1'', event ''e2''],
             Delay 4000,
             Fetch ''https://analytics.example.com/events'' [event ''e1'', event ''e2''],
             Emit (FlushFailed (HttpError 503 ''Service Unavailable''))]\<rparr>)"
proof -
  let ?s = "serviceOf (configWithBatchSize 2) fiveEvents False"
  let ?e = "HttpError 503 ''Service Unavailable''"
  have idle: "\<not> isFlushInProgress ?s" and size: "1 \<le> batchSize (config ?s)"
    by (simp_all add: serviceOf_def configWithBatchSize_def defaultConfig_def)
  note main = shutdown_stops_timer_then_drains [OF idle size]
  have up: "batchSize (config ?s) = 2 \<and> 1 \<le> retryAttempts (config ?s) \<and>
    eventQueue ?s = [event ''e1'', event ''e2'', event ''e3'', event ''e4'', event ''e5''] \<and>
    flushTimer ?s = Some (Timeout 30000 True) \<and>
    (\<forall>n. attemptError (fetchOracle (worldOf serverUp) n) = None)"
    by (simp add: serviceOf_def configWithBatchSize_def defaultConfig_def fiveEvents_def
        worldOf_def serverUp_def)
  from main [THEN conjunct2, THEN conjunct2, rule_format, OF up]
  have a: "\<exists>s' w'. shutdown ?s (worldOf serverUp) = Some (Inr (), s', w') \<and>
      eventQueue s' = [] \<and>
      flushTimer s' = Some (Timeout 30000 False) \<and>
      trace w' =
        [ClearInterval,
         Fetch ''https://analytics.example.com/events'' [event ''e1'', event ''e2''],
         Emit (FlushCompleted 2),
         Fetch ''https://analytics.example.com/events'' [event ''e3'', event ''e4''],
         Emit (FlushCompleted 2),
         Fetch ''https://analytics.example.com/events'' [event ''e5''],
         Emit (FlushCompleted 1),
         Emit ShutdownDone]"
    by (simp add: serviceOf_def configWithBatchSize_def defaultConfig_def worldOf_def)
  let ?s1 = "fst (clearTimer ?s (worldOf serverDown))"
  let ?w1 = "snd (clearTimer ?s (worldOf serverDown))"
  have pre: "retryAttempts (config ?s1) = 3" "eventQueue ?s1 \<noteq> []" "\<not> isFlushInProgress ?s1"
    "attemptError (fetchOracle ?w1 (fetchCalls ?w1)) = Some ?e"
    "attemptError (fetchOracle ?w1 (fetchCalls ?w1 + 1)) = Some ?e"
    "attemptError (fetchOracle ?w1 (fetchCalls ?w1 + 2)) = Some ?e"
    by (simp_all add: clearTimer_def serviceOf_def configWithBatchSize_def defaultConfig_def
        fiveEvents_def worldOf_def serverDown_def)
  have ne: "eventQueue ?s \<noteq> []" by (simp add: serviceOf_def fiveEvents_def)
  from main [THEN conjunct2, THEN conjunct1, rule_format,
      OF conjI [OF ne flush_three_failures [OF pre]]]
  have b: "shutdown ?s (worldOf serverDown) =
     Some (Inl ?e,
       (serviceOf (configWithBatchSize 2) [event ''e3'', event ''e4'', event ''e5''] False)
         \<lparr>flushTimer := Some (Timeout 30000 False),
          metrics := \<lparr>totalEvents = 5, successfulFlushes = 0, failedFlushes = 1,
                      averageFlushTime = 0\<rparr>\<rparr>,
       (worldOf serverDown)
         \<lparr>clockReads := 1, fetchCalls := 3,
          trace :=
            [ClearInterval,
             Fetch ''https://analytics.example.com/events'' [event ''e1'', event ''e2''],
             Delay 2000,
             Fetch ''https://analytics.example.com/events'' [event ''e1'', event ''e2''],
             Delay 4000,
             Fetch ''https://analytics.example.com/events'' [event ''e1'', event ''e2''],
             Emit (FlushFailed ?e)]\<rparr>)"
    by (simp add: clearTimer_def serviceOf_def configWithBatchSize_def defaultConfig_def
        fiveEvents_def worldOf_def)
  from idle size a b show ?thesis by blast
qed

text \<open>
  In the scenario of C8 nothing comes before the stop of the timer: the three requests
  follow it.
\<close>

theorem shutdown_timer_order_counterexample:
  "shutdown (serviceOf (configWithBatchSize 2) fiveEvents False) (worldOf serverUp) =
     Some (Inr (),
       (serviceOf (configWithBatchSize 2) [] False)
         \<lparr>flushTimer := Some (Timeout 30000 False),
          metrics := \<lparr>totalEvents = 5, successfulFlushes = 3, failedFlushes = 0,
                      averageFlushTime = 1000\<rparr>\<rparr>,
       (worldOf serverUp)
         \<lparr>clockReads := 6, fetchCalls := 3,
          trace :=
            [ClearInterval,
             Fetch ''https://analytics.example.com/events'' [event ''e1'', event ''e2''],
             Emit (FlushCompleted 2),
             Fetch ''https://analytics.example.com/events'' [event ''e3'', event ''e4''],
             Emit (FlushCompleted 2),
             Fetch ''https://analytics.example.com/events'' [event ''e5''],
             Emit (FlushCompleted 1),
             Emit ShutdownDone]\<rparr>) \<and>
   effectsBefore ClearInterval
     [ClearInterval,
      Fetch ''https://analytics.example.com/events'' [event ''e1'', event ''e2''],
      Emit (FlushCompleted 2),
      Fetch ''https://analytics.example.com/events'' [event ''e3'', event ''e4''],
      Emit (FlushCompleted 2),
      Fetch ''https://analytics.example.com/events'' [event ''e5''],
      Emit (FlushCompleted 1),
      Emit ShutdownDone] = []"
  using shutdown_five_by_two_up by simp

text \<open>
  C9. When no flush is in progress and \<open>batchSize\<close> is at least 1, \<open>shutdown\<close> settles,
  whatever the network does: it throws after exactly one failed flush, or returns with no
  failed flush and an empty queue. An error that ends the drain loop is thrown by
  \<open>shutdown\<close> unchanged. One turn of the loop on a non-empty queue is a \<open>flush\<close> that
  either throws, and then the loop ends with that error, or removes
  \<open>min batchSize queueLength\<close> events, at least one, and leaves the flag clear and the
  configuration as it was for the next turn.
\<close>

theorem shutdown_terminates:
  assumes "\<not> isFlushInProgress s" and "1 \<le> batchSize (config s)"
  shows
   "(\<exists>r s' w'.
      shutdown s w = Some (r, s', w') \<and>
      (case r of
         Inl e \<Rightarrow> failedFlushes (metrics s') = failedFlushes (metrics s) + 1
       | Inr u \<Rightarrow> failedFlushes (metrics s') = failedFlushes (metrics s) \<and>
                  eventQueue s' = [])) \<and>
    (\<forall>e s2 w2.
      drain (fst (clearTimer s w)) (snd (clearTimer s w)) = Some (Inl e, s2, w2) \<longrightarrow>
      shutdown s w = Some (Inl e, s2, w2)) \<and>
    (eventQueue s \<noteq> [] \<longrightarrow>
       (\<exists>e s2 w2. flush s w = (Inl e, s2, w2) \<and> drain s w = Some (Inl e, s2, w2)) \<or>
       (\<exists>s2 w2.
          flush s w =
            (Inr (min (batchSize (config s)) (int (length (eventQueue s)))), s2, w2) \<and>
          1 \<le> min (batchSize (config s)) (int (length (eventQueue s))) \<and>
          int (length (eventQueue s2)) =
            int (length (eventQueue s))
              - min (batchSize (config s)) (int (length (eventQueue s))) \<and>
          \<not> isFlushInProgress s2 \<and> config s2 = config s \<and>
          drain s w = drain s2 w2))"
proof (intro conjI allI impI)
  from shutdown_settles [OF assms, of w]
  obtain r s' w' where res: "shutdown s w = Some (r, s', w')"
    and out: "case r of
         Inl e \<Rightarrow> failedFlushes (metrics s') = failedFlushes (metrics s) + 1 \<and>
                  (\<exists>pre. trace w' = pre @ [Emit (FlushFailed e)])
       | Inr u \<Rightarrow> failedFlushes (metrics s') = failedFlushes (metrics s) \<and>
                  eventQueue s' = [] \<and>
                  (\<exists>pre. trace w' = pre @ [Emit ShutdownDone])"
    by blast
  from out have "case r of
         Inl e \<Rightarrow> failedFlushes (metrics s') = failedFlushes (metrics s) + 1
       | Inr u \<Rightarrow> failedFlushes (metrics s') = failedFlushes (metrics s) \<and>
                  eventQueue s' = []"
    by (cases r) simp_all
  with res show "\<exists>r s' w'.
      shutdown s w = Some (r, s', w') \<and>
      (case r of
         Inl e \<Rightarrow> failedFlushes (metrics s') = failedFlushes (metrics s) + 1
       | Inr u \<Rightarrow> failedFlushes (metrics s') = failedFlushes (metrics s) \<and>
                  eventQueue s' = [])"
    by blast
next
  fix e s2 w2
  assume "drain (fst (clearTimer s w)) (snd (clearTimer s w)) = Some (Inl e, s2, w2)"
  then show "shutdown s w = Some (Inl e, s2, w2)"
    by (simp add: shutdown_eq)
next
  assume ne: "eventQueue s \<noteq> []"
  show "(\<exists>e s2 w2. flush s w = (Inl e, s2, w2) \<and> drain s w = Some (Inl e, s2, w2)) \<or>
       (\<exists>s2 w2.
          flush s w =
            (Inr (min (batchSize (config s)) (int (length (eventQueue s)))), s2, w2) \<and>
          1 \<le> min (batchSize (config s)) (int (length (eventQueue s))) \<and>
          int (length (eventQueue s2)) =
            int (length (eventQueue s))
              - min (batchSize (config s)) (int (length (eventQueue s))) \<and>
          \<not> isFlushInProgress s2 \<and> config s2 = config s \<and>
          drain s w = drain s2 w2)"
  proof (cases s w rule: flush_cases)
    case noop
    with assms ne show ?thesis by simp
  next
    case (failure e w2)
    note fl = flush_failure [OF failure]
    from drain_step_fail [OF assms(1) ne fl] fl show ?thesis by blast
  next
    case (success w2)
    have len: "int (length (take (nat (batchSize (config s))) (eventQueue s))) =
        min (batchSize (config s)) (int (length (eventQueue s)))"
      using assms(2) by (auto simp add: min_def)
    note fl = flush_success [OF success, unfolded len]
    have one: "1 \<le> min (batchSize (config s)) (int (length (eventQueue s)))"
      using assms(2) ne by (cases "eventQueue s") (simp_all add: min_def)
    have shrink: "int (length (drop (nat (batchSize (config s))) (eventQueue s))) =
        int (length (eventQueue s))
          - min (batchSize (config s)) (int (length (eventQueue s)))"
      using assms(2) by (auto simp add: min_def)
    have step: "drain s w = drain (fst (snd (flush s w))) (snd (snd (flush s w)))"
      using ne fl by (subst drain.simps) simp
    from fl one shrink step assms(1) show ?thesis by simp
  qed
qed

theorem shutdown_terminates_witness:
  "\<not> isFlushInProgress (serviceOf (configWithBatchSize 2) [event ''a''] False) \<and>
   1 \<le> batchSize (config (serviceOf (configWithBatchSize 2) [event ''a''] False)) \<and>
   (\<exists>r s' w'. shutdown (serviceOf (configWithBatchSize 2) [event ''a''] False)
       (worldOf serverUp) = Some (r, s', w')) \<and>
   shutdown (serviceOf (configWithBatchSize 2) [event ''a''] False) (worldOf serverDown) =
     Some (Inl (HttpError 503 ''Service Unavailable''),
       (serviceOf (configWithBatchSize 2) [] False)
         \<lparr>flushTimer := Some (Timeout 30000 False),
          metrics := \<lparr>totalEvents = 1, successfulFlushes = 0, failedFlushes = 1,
                      averageFlushTime = 0\<rparr>\<rparr>,
       (worldOf serverDown)
         \<lparr>clockReads := 1, fetchCalls := 3,
          trace :=
            [ClearInterval,
             Fetch ''https://analytics.example.com/events'' [event ''a''],
             Delay 2000,
             Fetch ''https://analytics.example.com/events'' [event ''a''],
             Delay 4000,
             Fetch ''https://analytics.example.com/events'' [event ''a''],
             Emit (FlushFailed (HttpError 503 ''Service Unavailable''))]\<rparr>)"
proof -
  let ?s = "serviceOf (configWithBatchSize 2) [event ''a''] False"
  let ?e = "HttpError 503 ''Service Unavailable''"
  have idle: "\<not> isFlushInProgress ?s" and size: "1 \<le> batchSize (config ?s)"
    by (simp_all add: serviceOf_def configWithBatchSize_def defaultConfig_def)
  from shutdown_terminates [OF idle size, of "worldOf serverUp", THEN conjunct1]
  have a: "\<exists>r s' w'. shutdown ?s (worldOf serverUp) = Some (r, s', w')" by blast
  let ?s1 = "fst (clearTimer ?s (worldOf serverDown))"
  let ?w1 = "snd (clearTimer ?s (worldOf serverDown))"
  have pre: "retryAttempts (config ?s1) = 3" "eventQueue ?s1 \<noteq> []" "\<not> isFlushInProgress ?s1"
    "attemptError (fetchOracle ?w1 (fetchCalls ?w1)) = Some ?e"
    "attemptError (fetchOracle ?w1 (fetchCalls ?w1 + 1)) = Some ?e"
    "attemptError (fetchOracle ?w1 (fetchCalls ?w1 + 2)) = Some ?e"
    by (simp_all add: clearTimer_def serviceOf_def configWithBatchSize_def defaultConfig_def
        worldOf_def serverDown_def)
  note d = drain_step_fail [OF pre(3,2) flush_three_failures [OF pre]]
  from shutdown_terminates [OF idle size, of "worldOf serverDown",
      THEN conjunct2, THEN conjunct1, rule_format, OF d]
  have b: "shutdown ?s (worldOf serverDown) =
     Some (Inl ?e,
       (serviceOf (configWithBatchSize 2) [] False)
         \<lparr>flushTimer := Some (Timeout 30000 False),
          metrics := \<lparr>totalEvents = 1, successfulFlushes = 0, failedFlushes = 1,
                      averageFlushTime = 0\<rparr>\<rparr>,
       (worldOf serverDown)
         \<lparr>clockReads := 1, fetchCalls := 3,
          trace :=
            [ClearInterval,
             Fetch ''https://analytics.example.com/events'' [event ''a''],
             Delay 2000,
             Fetch ''https://analytics.example.com/events'' [event ''a''],
             Delay 4000,
             Fetch ''https://analytics.example.com/events'' [event ''a''],
             Emit (FlushFailed ?e)]\<rparr>)"
    by (simp add: clearTimer_def serviceOf_def configWithBatchSize_def defaultConfig_def
        worldOf_def)
  from idle size a b show ?thesis by blast
qed

subsection \<open>Claims about the metrics\<close>

text \<open>
  C5. After any sequence of calls on a new service (\<open>track\<close>, \<open>flush\<close> and timer ticks
  in any order, whatever the network answers), \<open>totalEvents\<close> is the number of \<open>track\<close>
  calls in the sequence; from any other state, also one with a flush in flight, it has
  grown by that number. One \<open>track\<close> raises \<open>totalEvents\<close> by one and appends exactly
  one event, stamped with the clock reading it makes, at the end of the queue; when it goes
  on to flush (threshold reached and no flush in progress) the queue it leaves is that
  queue less the batch.
\<close>

theorem totalEvents_counts_track_calls:
  "totalEvents (getMetrics (fst (run cs (newAnalyticsService cfg w0))))
     = int (length (filter isTrack cs)) \<and>
   totalEvents (getMetrics (fst (run cs (s0, w0))))
     = totalEvents (getMetrics s0) + int (length (filter isTrack cs)) \<and>
   totalEvents (getMetrics (fst (snd (track etype uid props s w))))
     = totalEvents (getMetrics s) + 1 \<and>
   eventQueue (fst (trackEnqueue etype uid props s w))
     = eventQueue s @ [eventAt etype uid props (clockOracle w (clockReads w))] \<and>
   eventQueue (fst (snd (track etype uid props s w)))
     = (if batchSize (config s) \<le> int (length (eventQueue s)) + 1 \<and> \<not> isFlushInProgress s
        then drop (nat (batchSize (config s)))
               (eventQueue s @ [eventAt etype uid props (clockOracle w (clockReads w))])
        else eventQueue s @ [eventAt etype uid props (clockOracle w (clockReads w))])"
proof (intro conjI)
  show "totalEvents (getMetrics (fst (run cs (newAnalyticsService cfg w0))))
     = int (length (filter isTrack cs))"
    by (simp add: getMetrics_def run_totalEvents newAnalyticsService_eq)
next
  show "totalEvents (getMetrics (fst (run cs (s0, w0))))
     = totalEvents (getMetrics s0) + int (length (filter isTrack cs))"
    by (simp add: getMetrics_def run_totalEvents)
next
  from perform_totalEvents [of "Track etype uid props" "(s, w)"]
  show "totalEvents (getMetrics (fst (snd (track etype uid props s w))))
     = totalEvents (getMetrics s) + 1"
    by (simp add: getMetrics_def)
next
  show "eventQueue (fst (trackEnqueue etype uid props s w))
     = eventQueue s @ [eventAt etype uid props (clockOracle w (clockReads w))]"
    by (simp add: trackEnqueue_eq)
next
  show "eventQueue (fst (snd (track etype uid props s w)))
     = (if batchSize (config s) \<le> int (length (eventQueue s)) + 1 \<and> \<not> isFlushInProgress s
        then drop (nat (batchSize (config s)))
               (eventQueue s @ [eventAt etype uid props (clockOracle w (clockReads w))])
        else eventQueue s @ [eventAt etype uid props (clockOracle w (clockReads w))])"
    by (auto simp add: track_state trackEnqueue_eq flush_queue)
qed

theorem totalEvents_counts_track_calls_witness:
  "totalEvents (getMetrics (fst (run
     [Track ''a'' ''u'' [], Track ''b'' ''u'' [], Flush, TimerTick, Track ''c'' ''u'' []]
     (newAnalyticsService (configWithBatchSize 2) (worldOf serverDown))))) = 3 \<and>
   eventQueue (fst (snd (track ''click'' ''user123'' []
       (serviceOf (configWithBatchSize 2) [event ''a''] False) (worldOf serverUp)))) = [] \<and>
   eventQueue (fst (snd (track ''click'' ''user123'' []
       (serviceOf defaultConfig [event ''a''] False) (worldOf serverUp))))
     = [event ''a'', eventAt ''click'' ''user123'' [] 0]"
  using totalEvents_counts_track_calls
    [of "[Track ''a'' ''u'' [], Track ''b'' ''u'' [], Flush, TimerTick, Track ''c'' ''u'' []]"
        "configWithBatchSize 2" "worldOf serverDown" _ "''click''" "''user123''" "[]"
        "serviceOf (configWithBatchSize 2) [event ''a''] False" "worldOf serverUp"]
    totalEvents_counts_track_calls
    [of "[]" "configWithBatchSize 2" "worldOf serverDown" _ "''click''" "''user123''" "[]"
        "serviceOf defaultConfig [event ''a''] False" "worldOf serverUp"]
  by (simp add: serviceOf_def configWithBatchSize_def defaultConfig_def worldOf_def)

end
